theory Spec2Isabelle
  imports Main
begin

section \<open>Countdown timer: \<^verbatim>\<open>QuizTimer.jsx\<close>\<close>

subsection \<open>Rendering numbers\<close>

text \<open>
  The timer holds whole seconds, and a JavaScript number is a double. On the integers
  from \<open>- maxSafeInteger\<close> to \<open>maxSafeInteger\<close> (\<^verbatim>\<open>Number.MAX_SAFE_INTEGER\<close>, \<open>2\<^sup>5\<^sup>3 - 1\<close>)
  the operations used here are exact, and the definitions below are the code on that
  range: \<^verbatim>\<open>Number.prototype.toString\<close> prints such an integer in decimal, with a leading
  minus sign when it is negative; JavaScript's \<^verbatim>\<open>%\<close> truncates (the remainder takes the
  sign of the dividend); \<^verbatim>\<open>Math.floor\<close> of the quotient by 3600 or by 60 is HOL's \<open>div\<close>
  on \<open>int\<close>. Beyond that range a double no longer holds every integer, the quotient is
  rounded and \<^verbatim>\<open>toString\<close> changes to other digits and, from \<open>10\<^sup>2\<^sup>1\<close>, to exponent
  form; nothing is stated about the definitions there. \<^verbatim>\<open>padStart(2, '0')\<close> pads on the
  left up to two characters and leaves a longer string alone.
\<close>

definition maxSafeInteger :: int where
  "maxSafeInteger = 2 ^ 53 - 1"

definition digitChar :: "nat \<Rightarrow> char" where
  "digitChar d = char_of (48 + d)"

fun natToString :: "nat \<Rightarrow> string" where
  "natToString n =
     (if n < 10 then [digitChar n] else natToString (n div 10) @ [digitChar (n mod 10)])"

declare natToString.simps [simp del]

definition toString :: "int \<Rightarrow> string" where
  "toString i = (if i < 0 then CHR ''-'' # natToString (nat (- i)) else natToString (nat i))"

definition padStart :: "nat \<Rightarrow> char \<Rightarrow> string \<Rightarrow> string" where
  "padStart targetLength c s = replicate (targetLength - length s) c @ s"

definition jsRem :: "int \<Rightarrow> int \<Rightarrow> int" where
  "jsRem a b = sgn a * (\<bar>a\<bar> mod \<bar>b\<bar>)"

text \<open>
  \<^verbatim>\<open>
  const formatTime = (seconds) => {
    const hours = Math.floor(seconds / 3600)
    const minutes = Math.floor((seconds % 3600) / 60)
    const secs = seconds % 60
    if (hours > 0) {
      return `${hours}:${minutes.toString().padStart(2, '0')}:${secs.toString().padStart(2, '0')}`
    }
    return `${minutes}:${secs.toString().padStart(2, '0')}`
  }
  \<close>
\<close>

definition formatTime :: "int \<Rightarrow> string" where
  "formatTime seconds =
     (let hours = seconds div 3600;
          minutes = jsRem seconds 3600 div 60;
          secs = jsRem seconds 60
      in if hours > 0
         then toString hours @ '':'' @ padStart 2 CHR ''0'' (toString minutes) @ '':'' @
              padStart 2 CHR ''0'' (toString secs)
         else toString minutes @ '':'' @ padStart 2 CHR ''0'' (toString secs))"

text \<open>
  Reading a rendered time back: the fields between the colons, and the number a field of
  decimal digits denotes. These two are the yardstick for the format, not part of the
  component.
\<close>

fun splitOn :: "char \<Rightarrow> string \<Rightarrow> string list" where
  "splitOn c [] = [[]]"
| "splitOn c (x # xs) =
     (if x = c then [] # splitOn c xs
      else (case splitOn c xs of [] \<Rightarrow> [[x]] | f # fs \<Rightarrow> (x # f) # fs))"

definition isDigit :: "char \<Rightarrow> bool" where
  "isDigit c = (48 \<le> (of_char c :: nat) \<and> (of_char c :: nat) \<le> 57)"

definition digitsValue :: "string \<Rightarrow> nat" where
  "digitsValue s = foldl (\<lambda>acc c. 10 * acc + (of_char c - 48)) 0 s"

subsection \<open>Severity bands\<close>

text \<open>
  The two flags are state variables of the component; the colour and the alerts are
  derived from them (\<^verbatim>\<open>getTimerColor\<close>: critical first, then warning, otherwise the
  normal colour).
\<close>

datatype band = Normal | Warning | Critical

definition specBand :: "int \<Rightarrow> band" where
  \<comment> \<open>The bands as the specification words them: above 60 normal, 31 to 60 warning,
      0 to 30 critical.\<close>
  "specBand r = (if r > 60 then Normal else if 31 \<le> r \<and> r \<le> 60 then Warning else Critical)"

subsection \<open>Component state\<close>

text \<open>
  The props are \<open>initialTimeRemaining\<close> (\<open>None\<close> for \<^verbatim>\<open>null\<close> or \<^verbatim>\<open>undefined\<close>) and
  whether \<^verbatim>\<open>onTimeUp\<close> and \<^verbatim>\<open>onTimeSync\<close> were supplied. The state variables are
  \<open>timeRemaining\<close>, \<open>isWarning\<close> and \<open>isCritical\<close>. The runtime's table of live
  intervals is \<open>intervals\<close>: \<^verbatim>\<open>setInterval\<close> adds an entry under a fresh id and
  \<^verbatim>\<open>clearInterval\<close> removes the entry of the id it is given. The cleanup function an
  effect returned is kept as the id its closure holds (\<open>None\<close> when the effect returned
  nothing). \<open>timeUpCalls\<close> and \<open>timeSyncCalls\<close> count the invocations of the two
  callbacks; they are observers, not part of the component.
\<close>

datatype interval_kind = Countdown | TimeSyncRequest

record timer =
  initialTimeRemaining :: "int option"
  hasOnTimeUp :: bool
  hasOnTimeSync :: bool
  timeRemaining :: int
  isWarning :: bool
  isCritical :: bool
  intervals :: "(nat \<times> interval_kind) list"
  nextIntervalId :: nat
  countdownCleanup :: "nat option"
  syncCleanup :: "nat option"
  timeUpCalls :: nat
  timeSyncCalls :: nat

definition clearInterval :: "nat \<Rightarrow> (nat \<times> 'k) list \<Rightarrow> (nat \<times> 'k) list" where
  "clearInterval i tab = filter (\<lambda>e. fst e \<noteq> i) tab"

definition timerBand :: "timer \<Rightarrow> band" where
  "timerBand t = (if isCritical t then Critical else if isWarning t then Warning else Normal)"

text \<open>
  \<^verbatim>\<open>
  if (newTime <= 60 && newTime > 30) { setIsWarning(true);  setIsCritical(false) }
  else if (newTime <= 30)            { setIsWarning(true);  setIsCritical(true) }
  else                               { setIsWarning(false); setIsCritical(false) }
  \<close>
\<close>

definition setBands :: "int \<Rightarrow> timer \<Rightarrow> timer" where
  "setBands newTime t =
     (if newTime \<le> 60 \<and> newTime > 30 then t\<lparr>isWarning := True, isCritical := False\<rparr>
      else if newTime \<le> 30 then t\<lparr>isWarning := True, isCritical := True\<rparr>
      else t\<lparr>isWarning := False, isCritical := False\<rparr>)"

definition callOnTimeUp :: "timer \<Rightarrow> timer" where
  \<comment> \<open>\<^verbatim>\<open>if (onTimeUp) onTimeUp()\<close>\<close>
  "callOnTimeUp t = (if hasOnTimeUp t then t\<lparr>timeUpCalls := timeUpCalls t + 1\<rparr> else t)"

subsection \<open>Effects\<close>

text \<open>
  React runs an effect after the first render and after every render in which one of its
  dependencies changed; before it runs again, and when the component unmounts, the
  cleanup function of its previous run is called. A state setter that is given the
  current value does not cause a render. Updater functions are applied once (production
  rendering).

  The countdown effect depends on \<^verbatim>\<open>[timeRemaining, onTimeUp]\<close>:
  \<^verbatim>\<open>
  useEffect(() => {
    if (timeRemaining <= 0) {
      if (onTimeUp) { onTimeUp() }
      return
    }
    const interval = setInterval(() => { setTimeRemaining(prev => ...) }, 1000)
    return () => clearInterval(interval)
  }, [timeRemaining, onTimeUp])
  \<close>
\<close>

definition countdownEffect :: "timer \<Rightarrow> timer" where
  "countdownEffect t =
     (if timeRemaining t \<le> 0 then (callOnTimeUp t)\<lparr>countdownCleanup := None\<rparr>
      else let i = nextIntervalId t
           in t\<lparr>intervals := intervals t @ [(i, Countdown)], nextIntervalId := i + 1,
                countdownCleanup := Some i\<rparr>)"

definition runCountdownCleanup :: "timer \<Rightarrow> timer" where
  "runCountdownCleanup t =
     (case countdownCleanup t of
        None \<Rightarrow> t
      | Some i \<Rightarrow> t\<lparr>intervals := clearInterval i (intervals t), countdownCleanup := None\<rparr>)"

definition setTimeRemaining :: "int \<Rightarrow> timer \<Rightarrow> timer" where
  \<comment> \<open>A new value renders the component again, and the countdown effect, which depends on
      it, is cleaned up and run again.\<close>
  "setTimeRemaining v t =
     (if v = timeRemaining t then t
      else countdownEffect (runCountdownCleanup (t\<lparr>timeRemaining := v\<rparr>)))"

text \<open>
  The time-sync effect depends on \<^verbatim>\<open>[onTimeSync]\<close>:
  \<^verbatim>\<open>
  useEffect(() => {
    if (!onTimeSync) return
    const syncInterval = setInterval(() => { onTimeSync() }, 120000)
    return () => clearInterval(syncInterval)
  }, [onTimeSync])
  \<close>
\<close>

definition timeSyncEffect :: "timer \<Rightarrow> timer" where
  "timeSyncEffect t =
     (if \<not> hasOnTimeSync t then t\<lparr>syncCleanup := None\<rparr>
      else let i = nextIntervalId t
           in t\<lparr>intervals := intervals t @ [(i, TimeSyncRequest)], nextIntervalId := i + 1,
                syncCleanup := Some i\<rparr>)"

definition runSyncCleanup :: "timer \<Rightarrow> timer" where
  "runSyncCleanup t =
     (case syncCleanup t of
        None \<Rightarrow> t
      | Some i \<Rightarrow> t\<lparr>intervals := clearInterval i (intervals t), syncCleanup := None\<rparr>)"

subsection \<open>Mounting, events, unmounting\<close>

text \<open>
  \<^verbatim>\<open>useState(initialTimeRemaining || 0)\<close> starts at 0 when the prop is unset. The first
  effect, \<^verbatim>\<open>if (initialTimeRemaining !== null && initialTimeRemaining !== undefined)
  setTimeRemaining(initialTimeRemaining)\<close>, schedules its update; the other two effects of
  the same commit run against the rendered value, and the update is applied afterwards.
\<close>

definition mountTimer :: "int option \<Rightarrow> bool \<Rightarrow> bool \<Rightarrow> timer" where
  "mountTimer init up sync =
     (let t0 = \<lparr>initialTimeRemaining = init, hasOnTimeUp = up, hasOnTimeSync = sync,
                timeRemaining = (case init of None \<Rightarrow> 0 | Some v \<Rightarrow> v),
                isWarning = False, isCritical = False, intervals = [], nextIntervalId = 0,
                countdownCleanup = None, syncCleanup = None, timeUpCalls = 0,
                timeSyncCalls = 0\<rparr>;
          t1 = timeSyncEffect (countdownEffect t0)
      in case init of None \<Rightarrow> t1 | Some v \<Rightarrow> setTimeRemaining v t1)"

definition countdownRunning :: "timer \<Rightarrow> bool" where
  "countdownRunning t = (Countdown \<in> set (map snd (intervals t)))"

text \<open>
  One firing of the countdown interval:
  \<^verbatim>\<open>
  setTimeRemaining(prev => {
    const newTime = Math.max(0, prev - 1)
    ... the band flags ...
    if (newTime === 0 && onTimeUp) { onTimeUp() }
    return newTime
  })
  \<close>
\<close>

definition tick :: "timer \<Rightarrow> timer" where
  "tick t =
     (if \<not> countdownRunning t then t
      else let newTime = max 0 (timeRemaining t - 1);
               t1 = setBands newTime t;
               t2 = (if newTime = 0 then callOnTimeUp t1 else t1)
           in setTimeRemaining newTime t2)"

definition syncTick :: "timer \<Rightarrow> timer" where
  \<comment> \<open>One firing of the two-minute interval: \<^verbatim>\<open>onTimeSync()\<close>.\<close>
  "syncTick t =
     (if TimeSyncRequest \<in> set (map snd (intervals t))
      then t\<lparr>timeSyncCalls := timeSyncCalls t + 1\<rparr> else t)"

text \<open>
  The page passes \<^verbatim>\<open>onTimeUp={handleTimeUp}\<close> and \<^verbatim>\<open>onTimeSync={requestTimeSync}\<close>,
  both created anew by every render of the page. So a render of the page changes a
  dependency of the countdown effect and of the time-sync effect, and each is cleaned up
  and run again; a callback that is not passed stays \<^verbatim>\<open>undefined\<close> from render to
  render and its effect is left alone. All cleanups come before the effects. The first
  effect runs when the value of the prop changed.
\<close>

definition parentRender :: "int option \<Rightarrow> timer \<Rightarrow> timer" where
  "parentRender v t =
     (let changed = (v \<noteq> initialTimeRemaining t);
          t1 = t\<lparr>initialTimeRemaining := v\<rparr>;
          c1 = (if hasOnTimeUp t then runCountdownCleanup t1 else t1);
          c2 = (if hasOnTimeSync t then runSyncCleanup c1 else c1);
          e1 = (if hasOnTimeUp t then countdownEffect c2 else c2);
          t3 = (if hasOnTimeSync t then timeSyncEffect e1 else e1)
      in case v of
           None \<Rightarrow> t3
         | Some x \<Rightarrow> if changed then setTimeRemaining x t3 else t3)"

definition unmountTimer :: "timer \<Rightarrow> timer" where
  "unmountTimer t = runSyncCleanup (runCountdownCleanup t)"

datatype timer_event = Tick | SyncTick | ParentRender "int option"

fun timerStep :: "timer \<Rightarrow> timer_event \<Rightarrow> timer" where
  "timerStep t Tick = tick t"
| "timerStep t SyncTick = syncTick t"
| "timerStep t (ParentRender v) = parentRender v t"

definition runTimer :: "timer_event list \<Rightarrow> timer \<Rightarrow> timer" where
  "runTimer evs t = foldl timerStep t evs"

definition timerInv :: "timer \<Rightarrow> bool" where
  \<comment> \<open>Every live interval is held by the cleanup function of one of the two effects.\<close>
  "timerInv t \<longleftrightarrow>
     (\<forall>e \<in> set (intervals t). countdownCleanup t = Some (fst e) \<or> syncCleanup t = Some (fst e))"

section \<open>Integrity monitor: \<^verbatim>\<open>SecurityWrapper\<close>\<close>

text \<open>
  The component takes the prop \<open>enabled\<close> and has two effects, both depending on
  \<^verbatim>\<open>[enabled]\<close>. The first attaches five listeners to the document and appends a style
  element to the head; the second counts window blurs. Each run of an effect creates its
  handlers anew, so a listener is a pair of the event name and the number of the closure
  that created it. \<^verbatim>\<open>let blurCount = 0\<close> is a variable of the second effect's closure:
  \<open>blurCountOf s g\<close> is the variable of closure \<open>g\<close>.
\<close>

datatype console_entry =
    TabSwitchDetected nat nat
  | MaxTabSwitchesExceeded
  | TabFocusRegained

record security =
  enabled :: bool
  docListeners :: "(string \<times> nat) list"
  windowListeners :: "(string \<times> nat) list"
  headStyles :: "nat list"
  blurCountOf :: "nat \<Rightarrow> nat"
  nextClosure :: nat
  guardCleanup :: "nat option"
  blurCleanup :: "nat option"
  console :: "console_entry list"

definition addEventListener :: "string \<Rightarrow> nat \<Rightarrow> (string \<times> nat) list \<Rightarrow> (string \<times> nat) list" where
  \<comment> \<open>A listener already registered for the event is not added again.\<close>
  "addEventListener name h ls = (if (name, h) \<in> set ls then ls else ls @ [(name, h)])"

definition removeEventListener :: "string \<Rightarrow> nat \<Rightarrow> (string \<times> nat) list \<Rightarrow> (string \<times> nat) list" where
  "removeEventListener name h ls = removeAll (name, h) ls"

definition maxBlurCount :: nat where
  "maxBlurCount = 3"

text \<open>
  \<^verbatim>\<open>
  useEffect(() => {
    if (!enabled) return
    ... handlers ...
    document.addEventListener('contextmenu', handleContextMenu)
    document.addEventListener('selectstart', handleSelectStart)
    document.addEventListener('dragstart', handleDragStart)
    document.addEventListener('keydown', handleKeyDown)
    document.addEventListener('keyup', handleKeyUp)
    const style = document.createElement('style') ...
    document.head.appendChild(style)
    return () => { ... removeEventListener for the same five ...; document.head.removeChild(style) }
  }, [enabled])
  \<close>
\<close>

definition guardEffect :: "security \<Rightarrow> security" where
  "guardEffect s =
     (if \<not> enabled s then s\<lparr>guardCleanup := None\<rparr>
      else let g = nextClosure s
           in s\<lparr>docListeners :=
                  addEventListener ''keyup'' g
                    (addEventListener ''keydown'' g
                      (addEventListener ''dragstart'' g
                        (addEventListener ''selectstart'' g
                          (addEventListener ''contextmenu'' g (docListeners s))))),
                headStyles := headStyles s @ [g],
                nextClosure := g + 1,
                guardCleanup := Some g\<rparr>)"

definition runGuardCleanup :: "security \<Rightarrow> security" where
  "runGuardCleanup s =
     (case guardCleanup s of
        None \<Rightarrow> s
      | Some g \<Rightarrow>
          s\<lparr>docListeners :=
               removeEventListener ''keyup'' g
                 (removeEventListener ''keydown'' g
                   (removeEventListener ''dragstart'' g
                     (removeEventListener ''selectstart'' g
                       (removeEventListener ''contextmenu'' g (docListeners s))))),
             headStyles := removeAll g (headStyles s),
             guardCleanup := None\<rparr>)"

text \<open>
  \<^verbatim>\<open>
  useEffect(() => {
    if (!enabled) return
    let blurCount = 0
    const maxBlurCount = 3
    const handleBlur = () => {
      blurCount++
      console.warn(`Tab switch detected (${blurCount}/${maxBlurCount})`)
      if (blurCount >= maxBlurCount) { console.error('Maximum tab switches exceeded') }
    }
    const handleFocus = () => { console.log('Tab focus regained') }
    window.addEventListener('blur', handleBlur)
    window.addEventListener('focus', handleFocus)
    return () => {
      window.removeEventListener('blur', handleBlur)
      window.removeEventListener('focus', handleFocus)
    }
  }, [enabled])
  \<close>
\<close>

definition blurEffect :: "security \<Rightarrow> security" where
  "blurEffect s =
     (if \<not> enabled s then s\<lparr>blurCleanup := None\<rparr>
      else let g = nextClosure s
           in s\<lparr>blurCountOf := (blurCountOf s)(g := 0),
                windowListeners :=
                  addEventListener ''focus'' g (addEventListener ''blur'' g (windowListeners s)),
                nextClosure := g + 1,
                blurCleanup := Some g\<rparr>)"

definition runBlurCleanup :: "security \<Rightarrow> security" where
  "runBlurCleanup s =
     (case blurCleanup s of
        None \<Rightarrow> s
      | Some g \<Rightarrow>
          s\<lparr>windowListeners :=
               removeEventListener ''focus'' g (removeEventListener ''blur'' g (windowListeners s)),
             blurCleanup := None\<rparr>)"

definition handleBlur :: "security \<Rightarrow> nat \<Rightarrow> security" where
  "handleBlur s g =
     (let n = blurCountOf s g + 1;
          s1 = s\<lparr>blurCountOf := (blurCountOf s)(g := n),
                 console := console s @ [TabSwitchDetected n maxBlurCount]\<rparr>
      in if n \<ge> maxBlurCount then s1\<lparr>console := console s1 @ [MaxTabSwitchesExceeded]\<rparr> else s1)"

definition handleFocus :: "security \<Rightarrow> nat \<Rightarrow> security" where
  "handleFocus s g = s\<lparr>console := console s @ [TabFocusRegained]\<rparr>"

definition listenersFor :: "string \<Rightarrow> (string \<times> nat) list \<Rightarrow> nat list" where
  "listenersFor name ls = map snd (filter (\<lambda>e. fst e = name) ls)"

definition windowBlur :: "security \<Rightarrow> security" where
  \<comment> \<open>The window loses focus: every listener for \<^verbatim>\<open>blur\<close> is called.\<close>
  "windowBlur s = foldl handleBlur s (listenersFor ''blur'' (windowListeners s))"

definition windowFocus :: "security \<Rightarrow> security" where
  "windowFocus s = foldl handleFocus s (listenersFor ''focus'' (windowListeners s))"

definition mountSecurity :: "bool \<Rightarrow> security" where
  "mountSecurity en =
     blurEffect (guardEffect
       \<lparr>enabled = en, docListeners = [], windowListeners = [], headStyles = [],
        blurCountOf = (\<lambda>_. 0), nextClosure = 0, guardCleanup = None, blurCleanup = None,
        console = []\<rparr>)"

definition setEnabled :: "bool \<Rightarrow> security \<Rightarrow> security" where
  \<comment> \<open>The page renders the wrapper with a new value of the prop: both cleanups run, then
      both effects.\<close>
  "setEnabled en s =
     (if en = enabled s then s
      else blurEffect (guardEffect (runBlurCleanup (runGuardCleanup (s\<lparr>enabled := en\<rparr>)))))"

definition unmountSecurity :: "security \<Rightarrow> security" where
  "unmountSecurity s = runBlurCleanup (runGuardCleanup s)"

datatype security_event = WindowBlur | WindowFocus | SetEnabled bool

fun securityStep :: "security \<Rightarrow> security_event \<Rightarrow> security" where
  "securityStep s WindowBlur = windowBlur s"
| "securityStep s WindowFocus = windowFocus s"
| "securityStep s (SetEnabled en) = setEnabled en s"

definition runSecurity :: "security_event list \<Rightarrow> security \<Rightarrow> security" where
  "runSecurity evs s = foldl securityStep s evs"

definition violationCount :: "security \<Rightarrow> nat option" where
  \<comment> \<open>The count held by the attached blur handler; \<open>None\<close> while no handler is attached.\<close>
  "violationCount s = (case blurCleanup s of None \<Rightarrow> None | Some g \<Rightarrow> Some (blurCountOf s g))"

definition securityInv :: "security \<Rightarrow> bool" where
  "securityInv s \<longleftrightarrow>
     docListeners s =
       (case guardCleanup s of
          None \<Rightarrow> []
        | Some g \<Rightarrow> [(''contextmenu'', g), (''selectstart'', g), (''dragstart'', g),
                     (''keydown'', g), (''keyup'', g)]) \<and>
     headStyles s = (case guardCleanup s of None \<Rightarrow> [] | Some g \<Rightarrow> [g]) \<and>
     windowListeners s =
       (case blurCleanup s of None \<Rightarrow> [] | Some g \<Rightarrow> [(''blur'', g), (''focus'', g)]) \<and>
     (enabled s \<longleftrightarrow> blurCleanup s \<noteq> None)"

section \<open>Channel and synchronizer: \<^verbatim>\<open>useSocket\<close> and \<^verbatim>\<open>useQuizSocket\<close>\<close>

subsection \<open>Quiz state and its handlers\<close>

text \<open>
  The object held by \<^verbatim>\<open>useState\<close> in \<^verbatim>\<open>useQuizSocket\<close> has the keys \<^verbatim>\<open>timeRemaining\<close>,
  \<^verbatim>\<open>currentQuestionIndex\<close>, \<^verbatim>\<open>totalQuestions\<close> and \<^verbatim>\<open>isJoined\<close>; the fields carry a
  \<open>q\<close> in front because the timer and the page have state variables of the same names.
  \<^verbatim>\<open>timeRemaining: null\<close> is \<open>None\<close>.
\<close>

record quizState =
  qTimeRemaining :: "int option"
  qCurrentQuestionIndex :: int
  qTotalQuestions :: int
  qIsJoined :: bool

definition initialQuizState :: quizState where
  "initialQuizState =
     \<lparr>qTimeRemaining = None, qCurrentQuestionIndex = 0, qTotalQuestions = 0, qIsJoined = False\<rparr>"

datatype inbound =
    QuizJoined int int int
  | TimeSync int
  | QuestionChanged int
  | AnswerSubmitted
  | QuizCompleted
  | UserJoined
  | UserLeft

datatype transport = Connect | Disconnect | ConnectError string | SocketError string

datatype outbound =
    JoinQuiz string
  | SubmitAnswer string string int
  | NextQuestion int
  | FinishQuiz
  | RequestTimeSync
  | LeaveQuiz

text \<open>
  \<^verbatim>\<open>
  const handleQuizJoined = (data) => {
    setQuizState(prev => ({ ...prev, timeRemaining: data.time_remaining,
      currentQuestionIndex: data.current_question_index,
      totalQuestions: data.total_questions, isJoined: true }))
  }
  const handleTimeSync = (data) => {
    setQuizState(prev => ({ ...prev, timeRemaining: data.time_remaining }))
  }
  const handleQuestionChanged = (data) => {
    setQuizState(prev => ({ ...prev, currentQuestionIndex: data.question_index }))
  }
  const handleQuizCompleted = (data) => {
    setQuizState(prev => ({ ...prev, isJoined: false }))
  }
  \<close>
\<close>

definition handleQuizJoined :: "int \<Rightarrow> int \<Rightarrow> int \<Rightarrow> quizState \<Rightarrow> quizState" where
  "handleQuizJoined time_remaining current_question_index total_questions prev =
     prev\<lparr>qTimeRemaining := Some time_remaining,
          qCurrentQuestionIndex := current_question_index,
          qTotalQuestions := total_questions,
          qIsJoined := True\<rparr>"

definition handleTimeSync :: "int \<Rightarrow> quizState \<Rightarrow> quizState" where
  "handleTimeSync time_remaining prev = prev\<lparr>qTimeRemaining := Some time_remaining\<rparr>"

definition handleQuestionChanged :: "int \<Rightarrow> quizState \<Rightarrow> quizState" where
  "handleQuestionChanged question_index prev = prev\<lparr>qCurrentQuestionIndex := question_index\<rparr>"

definition handleQuizCompleted :: "quizState \<Rightarrow> quizState" where
  "handleQuizCompleted prev = prev\<lparr>qIsJoined := False\<rparr>"

definition quizInvariant :: "quizState \<Rightarrow> bool" where
  \<comment> \<open>The invariant of the data model: once joined, the index is within the questions.\<close>
  "quizInvariant q \<longleftrightarrow>
     (qIsJoined q \<longrightarrow> 0 \<le> qCurrentQuestionIndex q \<and> qCurrentQuestionIndex q < qTotalQuestions q)"

subsection \<open>The hook's state\<close>

text \<open>
  \<open>socketCreated\<close> says that \<^verbatim>\<open>socketRef.current\<close> holds a socket, \<open>socketOpen\<close> that
  \<^verbatim>\<open>io(...)\<close> opened it and \<^verbatim>\<open>disconnect()\<close> has not been called. \<open>socketHandlers\<close> are
  the callbacks registered on the socket, each with the number of the closure that created
  it. \<open>hookIntervals\<close> are the ids of the live intervals of the hook. The cleanup of the
  join effect captures \<^verbatim>\<open>quizState.isJoined\<close> of the render that ran the effect,
  kept beside its closure number. \<open>outbox\<close> lists what was handed to \<^verbatim>\<open>socket.emit\<close>.
\<close>

record quizSocket =
  token :: "string option"
  sessionToken :: "string option"
  socketCreated :: bool
  socketOpen :: bool
  isConnected :: bool
  error :: "string option"
  socketHandlers :: "(string \<times> nat) list"
  quizState :: quizState
  activeUsers :: nat
  hookIntervals :: "nat list"
  nextHookId :: nat
  socketCleanup :: bool
  quizCleanup :: "(nat \<times> bool) option"
  autoSyncCleanup :: "nat option"
  outbox :: "outbound list"

definition truthy :: "string option \<Rightarrow> bool" where
  \<comment> \<open>\<^verbatim>\<open>null\<close>, \<^verbatim>\<open>undefined\<close> and the empty string are falsy.\<close>
  "truthy x = (case x of None \<Rightarrow> False | Some s \<Rightarrow> s \<noteq> [])"

definition tokenText :: "string option \<Rightarrow> string" where
  \<comment> \<open>A token as a template string prints it.\<close>
  "tokenText x = (case x of None \<Rightarrow> ''undefined'' | Some s \<Rightarrow> s)"

definition on :: "string \<Rightarrow> nat \<Rightarrow> (string \<times> nat) list \<Rightarrow> (string \<times> nat) list" where
  "on name g hs = hs @ [(name, g)]"

definition off :: "string \<Rightarrow> nat \<Rightarrow> (string \<times> nat) list \<Rightarrow> (string \<times> nat) list" where
  "off name g hs = removeAll (name, g) hs"

text \<open>
  \<^verbatim>\<open>
  const emit = (event, data) => {
    if (socketRef.current && isConnected) { socketRef.current.emit(event, data) }
  }
  \<close>
  \<^verbatim>\<open>isConnected\<close> is the value of the render that created this \<^verbatim>\<open>emit\<close>: the first
  argument of \<open>emitWith\<close>. A handler of the page uses the \<^verbatim>\<open>emit\<close> of the latest render.
\<close>

definition emitWith :: "bool \<Rightarrow> outbound \<Rightarrow> quizSocket \<Rightarrow> quizSocket" where
  "emitWith connected m h =
     (if socketCreated h \<and> connected then h\<lparr>outbox := outbox h @ [m]\<rparr> else h)"

definition emit :: "outbound \<Rightarrow> quizSocket \<Rightarrow> quizSocket" where
  "emit m h = emitWith (isConnected h) m h"

definition submitAnswer :: "string \<Rightarrow> string \<Rightarrow> int \<Rightarrow> quizSocket \<Rightarrow> quizSocket" where
  "submitAnswer questionId selectedAnswer timeTaken h =
     emit (SubmitAnswer questionId selectedAnswer timeTaken) h"

definition nextQuestion :: "int \<Rightarrow> quizSocket \<Rightarrow> quizSocket" where
  "nextQuestion questionIndex h = emit (NextQuestion questionIndex) h"

definition finishQuiz :: "quizSocket \<Rightarrow> quizSocket" where
  "finishQuiz h = emit FinishQuiz h"

definition requestTimeSync :: "quizSocket \<Rightarrow> quizSocket" where
  "requestTimeSync h = emit RequestTimeSync h"

subsection \<open>Effects of the hook\<close>

text \<open>
  The effect of \<^verbatim>\<open>useSocket\<close>, depending on \<^verbatim>\<open>[token]\<close>: without a token nothing happens;
  otherwise the socket is created, four handlers are registered with \<^verbatim>\<open>socket.on\<close>
  (\<^verbatim>\<open>connect\<close>, \<^verbatim>\<open>disconnect\<close>, \<^verbatim>\<open>connect_error\<close>, \<^verbatim>\<open>error\<close>), and the cleanup is
  \<^verbatim>\<open>if (socket) { socket.disconnect() }\<close>. The token does not change while the page is
  mounted.
\<close>

definition socketEffect :: "quizSocket \<Rightarrow> quizSocket" where
  "socketEffect h =
     (if \<not> truthy (token h) then h\<lparr>socketCleanup := False\<rparr>
      else let g = nextHookId h
           in h\<lparr>socketCreated := True, socketOpen := True,
                socketHandlers :=
                  on ''error'' g (on ''connect_error'' g (on ''disconnect'' g
                    (on ''connect'' g (socketHandlers h)))),
                nextHookId := g + 1,
                socketCleanup := True\<rparr>)"

definition runSocketCleanup :: "quizSocket \<Rightarrow> quizSocket" where
  "runSocketCleanup h =
     (if socketCleanup h then h\<lparr>socketOpen := False, socketCleanup := False\<rparr> else h)"

text \<open>
  The join effect of \<^verbatim>\<open>useQuizSocket\<close>, depending on \<^verbatim>\<open>[socket, isConnected, sessionToken]\<close>:
  \<^verbatim>\<open>
  if (!socket || !isConnected || !sessionToken) { return }
  emit('join_quiz', { session_token: sessionToken })
  ... the seven handlers ...
  on('quiz_joined', handleQuizJoined)
  on('time_sync', handleTimeSync)
  on('question_changed', handleQuestionChanged)
  on('answer_submitted', handleAnswerSubmitted)
  on('quiz_completed', handleQuizCompleted)
  on('user_joined', handleUserJoined)
  on('user_left', handleUserLeft)
  return () => {
    off(...) for the same seven
    if (quizState.isJoined) { emit('leave_quiz') }
  }
  \<close>
\<close>

definition quizEffect :: "quizSocket \<Rightarrow> quizSocket" where
  "quizEffect h =
     (if \<not> socketCreated h \<or> \<not> isConnected h \<or> \<not> truthy (sessionToken h)
      then h\<lparr>quizCleanup := None\<rparr>
      else let g = nextHookId h;
               h1 = emit (JoinQuiz (tokenText (sessionToken h))) h
           in h1\<lparr>socketHandlers :=
                   on ''user_left'' g (on ''user_joined'' g (on ''quiz_completed'' g
                     (on ''answer_submitted'' g (on ''question_changed'' g
                       (on ''time_sync'' g (on ''quiz_joined'' g (socketHandlers h1))))))),
                 nextHookId := g + 1,
                 quizCleanup := Some (g, qIsJoined (quizState h))\<rparr>)"

definition runQuizCleanup :: "quizSocket \<Rightarrow> quizSocket" where
  "runQuizCleanup h =
     (case quizCleanup h of
        None \<Rightarrow> h
      | Some (g, joined) \<Rightarrow>
          let h1 = h\<lparr>socketHandlers :=
                       off ''user_left'' g (off ''user_joined'' g (off ''quiz_completed'' g
                         (off ''answer_submitted'' g (off ''question_changed'' g
                           (off ''time_sync'' g (off ''quiz_joined'' g (socketHandlers h))))))),
                     quizCleanup := None\<rparr>
          in if joined then emitWith True LeaveQuiz h1 else h1)"

text \<open>
  The resynchronisation effect, depending on \<^verbatim>\<open>[socket, isConnected, quizState.isJoined]\<close>:
  \<^verbatim>\<open>
  if (!socket || !isConnected || !quizState.isJoined) { return }
  const interval = setInterval(() => { emit('request_time_sync') }, 30000)
  return () => clearInterval(interval)
  \<close>
\<close>

definition autoSyncEffect :: "quizSocket \<Rightarrow> quizSocket" where
  "autoSyncEffect h =
     (if \<not> socketCreated h \<or> \<not> isConnected h \<or> \<not> qIsJoined (quizState h)
      then h\<lparr>autoSyncCleanup := None\<rparr>
      else let i = nextHookId h
           in h\<lparr>hookIntervals := hookIntervals h @ [i], nextHookId := i + 1,
                autoSyncCleanup := Some i\<rparr>)"

definition runAutoSyncCleanup :: "quizSocket \<Rightarrow> quizSocket" where
  "runAutoSyncCleanup h =
     (case autoSyncCleanup h of
        None \<Rightarrow> h
      | Some i \<Rightarrow> h\<lparr>hookIntervals := removeAll i (hookIntervals h), autoSyncCleanup := None\<rparr>)"

definition quizDeps :: "quizSocket \<Rightarrow> bool \<times> bool \<times> string option" where
  "quizDeps h = (socketCreated h, isConnected h, sessionToken h)"

definition autoSyncDeps :: "quizSocket \<Rightarrow> bool \<times> bool \<times> bool" where
  "autoSyncDeps h = (socketCreated h, isConnected h, qIsJoined (quizState h))"

definition commit :: "quizSocket \<Rightarrow> quizSocket \<Rightarrow> quizSocket" where
  \<comment> \<open>After a render: the cleanups of the effects whose dependencies changed, then those
      effects.\<close>
  "commit old new =
     (let q = (quizDeps new \<noteq> quizDeps old);
          a = (autoSyncDeps new \<noteq> autoSyncDeps old);
          c1 = (if q then runQuizCleanup new else new);
          c2 = (if a then runAutoSyncCleanup c1 else c1);
          e1 = (if q then quizEffect c2 else c2)
      in if a then autoSyncEffect e1 else e1)"

subsection \<open>Mounting, events, unmounting\<close>

text \<open>
  In the first render \<^verbatim>\<open>socketRef.current\<close> is still \<^verbatim>\<open>null\<close>, so the two effects of
  \<^verbatim>\<open>useQuizSocket\<close> return at once and leave no cleanup.
\<close>

definition mountHook :: "string option \<Rightarrow> string option \<Rightarrow> quizSocket" where
  "mountHook tok sess =
     socketEffect
       \<lparr>token = tok, sessionToken = sess, socketCreated = False, socketOpen = False,
        isConnected = False, error = None, socketHandlers = [],
        quizState = initialQuizState, activeUsers = 0, hookIntervals = [], nextHookId = 0,
        socketCleanup = False, quizCleanup = None, autoSyncCleanup = None, outbox = []\<rparr>"

definition deliver :: "string \<Rightarrow> (quizSocket \<Rightarrow> quizSocket) \<Rightarrow> quizSocket \<Rightarrow> quizSocket" where
  \<comment> \<open>An event of the open socket calls every callback registered under its name.\<close>
  "deliver name f h =
     (if socketOpen h then foldl (\<lambda>x _. f x) h (listenersFor name (socketHandlers h)) else h)"

fun onTransport :: "transport \<Rightarrow> quizSocket \<Rightarrow> quizSocket" where
  "onTransport Connect h = deliver ''connect'' (\<lambda>x. x\<lparr>isConnected := True, error := None\<rparr>) h"
| "onTransport Disconnect h = deliver ''disconnect'' (\<lambda>x. x\<lparr>isConnected := False\<rparr>) h"
| "onTransport (ConnectError m) h =
     deliver ''connect_error'' (\<lambda>x. x\<lparr>error := Some m, isConnected := False\<rparr>) h"
| "onTransport (SocketError m) h = deliver ''error'' (\<lambda>x. x\<lparr>error := Some m\<rparr>) h"

definition updateQuizState :: "(quizState \<Rightarrow> quizState) \<Rightarrow> quizSocket \<Rightarrow> quizSocket" where
  "updateQuizState f h = h\<lparr>quizState := f (quizState h)\<rparr>"

fun onInbound :: "inbound \<Rightarrow> quizSocket \<Rightarrow> quizSocket" where
  "onInbound (QuizJoined t i n) h =
     deliver ''quiz_joined'' (updateQuizState (handleQuizJoined t i n)) h"
| "onInbound (TimeSync t) h = deliver ''time_sync'' (updateQuizState (handleTimeSync t)) h"
| "onInbound (QuestionChanged i) h =
     deliver ''question_changed'' (updateQuizState (handleQuestionChanged i)) h"
| "onInbound AnswerSubmitted h = deliver ''answer_submitted'' (\<lambda>x. x) h"
| "onInbound QuizCompleted h = deliver ''quiz_completed'' (updateQuizState handleQuizCompleted) h"
| "onInbound UserJoined h = deliver ''user_joined'' (\<lambda>x. x\<lparr>activeUsers := activeUsers x + 1\<rparr>) h"
| "onInbound UserLeft h = deliver ''user_left'' (\<lambda>x. x\<lparr>activeUsers := activeUsers x - 1\<rparr>) h"

text \<open>
  \<^verbatim>\<open>setActiveUsers(prev => Math.max(0, prev - 1))\<close> is the subtraction of \<open>nat\<close>, which
  stops at 0.
\<close>

definition autoSyncTick :: "quizSocket \<Rightarrow> quizSocket" where
  \<comment> \<open>One firing of the 30-second interval; its \<^verbatim>\<open>emit\<close> is the one of the render that
      started it, in which the socket was connected.\<close>
  "autoSyncTick h = (if hookIntervals h \<noteq> [] then emitWith True RequestTimeSync h else h)"

datatype hook_event = Transport transport | Inbound inbound | AutoSyncTick

fun hookHandle :: "quizSocket \<Rightarrow> hook_event \<Rightarrow> quizSocket" where
  "hookHandle h (Transport e) = onTransport e h"
| "hookHandle h (Inbound e) = onInbound e h"
| "hookHandle h AutoSyncTick = autoSyncTick h"

definition hookStep :: "quizSocket \<Rightarrow> hook_event \<Rightarrow> quizSocket" where
  "hookStep h e = commit h (hookHandle h e)"

definition runHook :: "hook_event list \<Rightarrow> quizSocket \<Rightarrow> quizSocket" where
  "runHook evs h = foldl hookStep h evs"

definition unmountHook :: "quizSocket \<Rightarrow> quizSocket" where
  "unmountHook h = runAutoSyncCleanup (runQuizCleanup (runSocketCleanup h))"

definition connectionHandlers :: "nat \<Rightarrow> (string \<times> nat) list" where
  "connectionHandlers g =
     [(''connect'', g), (''disconnect'', g), (''connect_error'', g), (''error'', g)]"

definition quizHandlers :: "nat \<Rightarrow> (string \<times> nat) list" where
  "quizHandlers g =
     [(''quiz_joined'', g), (''time_sync'', g), (''question_changed'', g),
      (''answer_submitted'', g), (''quiz_completed'', g), (''user_joined'', g),
      (''user_left'', g)]"

definition offAll :: "nat \<Rightarrow> (string \<times> nat) list \<Rightarrow> (string \<times> nat) list" where
  \<comment> \<open>The seven \<^verbatim>\<open>off\<close> calls of the join effect's cleanup, in its order.\<close>
  "offAll g hs =
     off ''user_left'' g (off ''user_joined'' g (off ''quiz_completed'' g
       (off ''answer_submitted'' g (off ''question_changed'' g
         (off ''time_sync'' g (off ''quiz_joined'' g hs))))))"

definition hookInv :: "quizSocket \<Rightarrow> bool" where
  "hookInv h \<longleftrightarrow>
     socketHandlers h =
       (if truthy (token h) then connectionHandlers 0 else []) @
       (case quizCleanup h of None \<Rightarrow> [] | Some c \<Rightarrow> quizHandlers (fst c)) \<and>
     hookIntervals h = (case autoSyncCleanup h of None \<Rightarrow> [] | Some i \<Rightarrow> [i]) \<and>
     (socketOpen h \<longrightarrow> socketCleanup h) \<and>
     (socketCreated h \<longleftrightarrow> truthy (token h))"

fun setsTime :: "hook_event \<Rightarrow> bool" where
  "setsTime (Inbound (QuizJoined t i n)) = True"
| "setsTime (Inbound (TimeSync t)) = True"
| "setsTime e = False"

text \<open>
  A session as the synchronizer and the timer see it together: a \<^verbatim>\<open>time_sync\<close> is handled
  by \<open>handleTimeSync\<close> and the page, rendered again, hands the new value to the timer; a
  local tick decrements the timer's own value only.
\<close>

datatype sync_event = TimeSyncReceived int | LocalTick

fun syncStep :: "quizState \<times> timer \<Rightarrow> sync_event \<Rightarrow> quizState \<times> timer" where
  "syncStep (q, t) (TimeSyncReceived v) =
     (let q' = handleTimeSync v q in (q', parentRender (qTimeRemaining q') t))"
| "syncStep (q, t) LocalTick = (q, tick t)"

definition runSync :: "sync_event list \<Rightarrow> quizState \<times> timer \<Rightarrow> quizState \<times> timer" where
  "runSync evs s = foldl syncStep s evs"

fun lastTimeSync :: "sync_event list \<Rightarrow> int option" where
  "lastTimeSync [] = None"
| "lastTimeSync (TimeSyncReceived v # evs) =
     (case lastTimeSync evs of None \<Rightarrow> Some v | Some w \<Rightarrow> Some w)"
| "lastTimeSync (LocalTick # evs) = lastTimeSync evs"

section \<open>Session controller: \<^verbatim>\<open>QuizPage\<close>\<close>

text \<open>
  The page holds the questions loaded over REST, the index of the visible question, the
  answers chosen so far (an object keyed by question id), the flag \<open>loading\<close> and the
  message \<open>pageError\<close> (the state variable \<^verbatim>\<open>error\<close>) of the REST calls, the time the
  visible question was first shown, and the security state: \<open>securityEnabled\<close>, \<open>warningCount\<close> and
  \<open>showSecurityWarning\<close>. \<open>socket\<close> is its instance of \<^verbatim>\<open>useQuizSocket\<close>.
  \<open>navigatedTo\<close> is the route \<^verbatim>\<open>navigate\<close> was last called with: the router then shows
  another page and this one is unmounted. \<open>finishQuizCalls\<close> counts the calls of
  \<^verbatim>\<open>finishQuiz()\<close>; it is an observer, not part of the page. Times are milliseconds
  (\<^verbatim>\<open>Date.now()\<close>), handed to each handler as \<open>now\<close>.
\<close>

record question =
  questionId :: string
  questionText :: string

record page =
  socket :: quizSocket
  questions :: "question list"
  currentQuestionIndex :: int
  answers :: "string \<rightharpoonup> string"
  loading :: bool
  pageError :: string
  isSubmitting :: bool
  questionStartTime :: int
  securityEnabled :: bool
  warningCount :: nat
  showSecurityWarning :: bool
  navigatedTo :: "string option"
  finishQuizCalls :: nat

definition mountPage :: "int \<Rightarrow> string option \<Rightarrow> string option \<Rightarrow> page" where
  "mountPage now tok sess =
     \<lparr>socket = mountHook tok sess, questions = [], currentQuestionIndex = 0,
      answers = Map.empty, loading = True, pageError = [], isSubmitting = False, questionStartTime = now,
      securityEnabled = True, warningCount = 0, showSecurityWarning = False,
      navigatedTo = None, finishQuizCalls = 0\<rparr>"

definition setCurrentQuestionIndex :: "int \<Rightarrow> int \<Rightarrow> page \<Rightarrow> page" where
  \<comment> \<open>The setter, followed by the effect that depends on \<^verbatim>\<open>[currentQuestionIndex]\<close>:
      \<^verbatim>\<open>setQuestionStartTime(Date.now())\<close>.\<close>
  "setCurrentQuestionIndex now i p =
     (if i = currentQuestionIndex p then p
      else p\<lparr>currentQuestionIndex := i, questionStartTime := now\<rparr>)"

definition quizLoaded :: "int \<Rightarrow> question list \<Rightarrow> int \<Rightarrow> page \<Rightarrow> page" where
  \<comment> \<open>\<^verbatim>\<open>loadQuizData\<close> succeeded: \<^verbatim>\<open>setQuestions(quizResponse.data.questions || [])\<close>,
      \<^verbatim>\<open>setCurrentQuestionIndex(session.current_question_index || 0)\<close>,
      \<^verbatim>\<open>setLoading(false)\<close>.\<close>
  "quizLoaded now qs idx p =
     setCurrentQuestionIndex now idx (p\<lparr>questions := qs, loading := False\<rparr>)"

definition questionAt :: "question list \<Rightarrow> int \<Rightarrow> question option" where
  \<comment> \<open>\<^verbatim>\<open>questions[i]\<close> is \<^verbatim>\<open>undefined\<close> outside the array.\<close>
  "questionAt qs i = (if 0 \<le> i \<and> i < int (length qs) then Some (qs ! nat i) else None)"

text \<open>
  \<^verbatim>\<open>
  const handleAnswerSelect = (selectedAnswer) => {
    const questionId = questions[currentQuestionIndex]?.id
    if (!questionId) return
    const timeTaken = Math.floor((Date.now() - questionStartTime) / 1000)
    setAnswers(prev => ({ ...prev, [questionId]: selectedAnswer }))
    submitAnswer(questionId, selectedAnswer, timeTaken)
  }
  \<close>
\<close>

definition handleAnswerSelect :: "int \<Rightarrow> string \<Rightarrow> page \<Rightarrow> page" where
  "handleAnswerSelect now selectedAnswer p =
     (case questionAt (questions p) (currentQuestionIndex p) of
        None \<Rightarrow> p
      | Some q \<Rightarrow>
          if questionId q = [] then p
          else let timeTaken = (now - questionStartTime p) div 1000
               in p\<lparr>answers := (answers p)(questionId q \<mapsto> selectedAnswer),
                    socket := submitAnswer (questionId q) selectedAnswer timeTaken (socket p)\<rparr>)"

text \<open>
  \<^verbatim>\<open>
  const handleNextQuestion = () => {
    if (currentQuestionIndex < questions.length - 1) {
      const newIndex = currentQuestionIndex + 1
      setCurrentQuestionIndex(newIndex)
      nextQuestion(newIndex)
    }
  }
  const handlePreviousQuestion = () => {
    if (currentQuestionIndex > 0) {
      const newIndex = currentQuestionIndex - 1
      setCurrentQuestionIndex(newIndex)
      nextQuestion(newIndex)
    }
  }
  \<close>
\<close>

definition handleNextQuestion :: "int \<Rightarrow> page \<Rightarrow> page" where
  "handleNextQuestion now p =
     (if currentQuestionIndex p < int (length (questions p)) - 1
      then let newIndex = currentQuestionIndex p + 1
           in (setCurrentQuestionIndex now newIndex p)\<lparr>socket := nextQuestion newIndex (socket p)\<rparr>
      else p)"

definition handlePreviousQuestion :: "int \<Rightarrow> page \<Rightarrow> page" where
  "handlePreviousQuestion now p =
     (if currentQuestionIndex p > 0
      then let newIndex = currentQuestionIndex p - 1
           in (setCurrentQuestionIndex now newIndex p)\<lparr>socket := nextQuestion newIndex (socket p)\<rparr>
      else p)"

definition questionButton :: "int \<Rightarrow> nat \<Rightarrow> page \<Rightarrow> page" where
  \<comment> \<open>\<^verbatim>\<open>questions.map((_, index) => <button onClick={() => setCurrentQuestionIndex(index)}>)\<close>:
      there is a button for each index of the array and for no other.\<close>
  "questionButton now index p =
     (if index < length (questions p) then setCurrentQuestionIndex now (int index) p else p)"

text \<open>
  \<^verbatim>\<open>
  const handleFinishQuiz = async () => {
    if (isSubmitting) return
    try {
      setIsSubmitting(true)
      finishQuiz()
      navigate(`/results/${sessionToken}`)
    } catch (err) { ... } finally { setIsSubmitting(false) }
  }
  const handleTimeUp = () => { handleFinishQuiz() }
  const handleSecurityViolation = () => {
    setWarningCount(prev => prev + 1)
    setShowSecurityWarning(true)
    if (warningCount >= 2) { handleFinishQuiz() }
  }
  \<close>
  \<^verbatim>\<open>warningCount\<close> in the comparison is the value of the render the handler belongs to,
  that is, the count before this violation. The two calls of \<^verbatim>\<open>setIsSubmitting\<close> happen
  in one synchronous run, so the flag is \<open>False\<close> afterwards.
\<close>

definition resultsRoute :: "string option \<Rightarrow> string" where
  "resultsRoute sess = ''/results/'' @ tokenText sess"

definition handleFinishQuiz :: "page \<Rightarrow> page" where
  "handleFinishQuiz p =
     (if isSubmitting p then p
      else p\<lparr>socket := finishQuiz (socket p),
             finishQuizCalls := finishQuizCalls p + 1,
             navigatedTo := Some (resultsRoute (sessionToken (socket p))),
             isSubmitting := False\<rparr>)"

definition handleTimeUp :: "page \<Rightarrow> page" where
  "handleTimeUp p = handleFinishQuiz p"

definition handleSecurityViolation :: "page \<Rightarrow> page" where
  "handleSecurityViolation p =
     (let p1 = p\<lparr>warningCount := warningCount p + 1, showSecurityWarning := True\<rparr>
      in if warningCount p \<ge> 2 then handleFinishQuiz p1 else p1)"

datatype page_event =
    AnswerSelect string
  | NextClicked
  | PreviousClicked
  | QuestionClicked nat
  | FinishClicked
  | TimeUp
  | SecurityViolation
  | ToggleSecurity
  | Channel hook_event

fun pageHandle :: "int \<Rightarrow> page \<Rightarrow> page_event \<Rightarrow> page" where
  "pageHandle now p (AnswerSelect a) = handleAnswerSelect now a p"
| "pageHandle now p NextClicked = handleNextQuestion now p"
| "pageHandle now p PreviousClicked = handlePreviousQuestion now p"
| "pageHandle now p (QuestionClicked i) = questionButton now i p"
| "pageHandle now p FinishClicked = handleFinishQuiz p"
| "pageHandle now p TimeUp = handleTimeUp p"
| "pageHandle now p SecurityViolation = handleSecurityViolation p"
| "pageHandle now p ToggleSecurity = p\<lparr>securityEnabled := \<not> securityEnabled p\<rparr>"
| "pageHandle now p (Channel e) = p\<lparr>socket := hookStep (socket p) e\<rparr>"

definition pageStep :: "page \<Rightarrow> int \<times> page_event \<Rightarrow> page" where
  \<comment> \<open>Once \<^verbatim>\<open>navigate\<close> has been called the router replaces the page, which then
      handles nothing more. A call that reaches the page in the same run as
      \<^verbatim>\<open>navigate\<close>, before the router has replaced it, is outside this step function.\<close>
  "pageStep p e = (if navigatedTo p \<noteq> None then p else pageHandle (fst e) p (snd e))"

definition runPage :: "(int \<times> page_event) list \<Rightarrow> page \<Rightarrow> page" where
  "runPage evs p = foldl pageStep p evs"

definition indexInRange :: "page \<Rightarrow> bool" where
  "indexInRange p \<longleftrightarrow> 0 \<le> currentQuestionIndex p \<and> currentQuestionIndex p < int (length (questions p))"

definition quizLoadFailed :: "string \<Rightarrow> page \<Rightarrow> page" where
  \<comment> \<open>\<^verbatim>\<open>loadQuizData\<close> failed: \<^verbatim>\<open>setError(...)\<close>, \<^verbatim>\<open>setLoading(false)\<close>.\<close>
  "quizLoadFailed msg p = p\<lparr>pageError := msg, loading := False\<rparr>"

text \<open>
  While \<open>loading\<close> is set the page renders a spinner, and with an error the message
  alone. Otherwise it renders \<^verbatim>\<open><QuizTimer initialTimeRemaining={quizState.timeRemaining}
  onTimeUp={handleTimeUp} onTimeSync={requestTimeSync} />\<close>. \<open>showTimer\<close> mounts the
  timer for the page as it stands and hands each of its calls of \<^verbatim>\<open>onTimeUp\<close> to the
  page.
\<close>

definition showTimer :: "int \<Rightarrow> page \<Rightarrow> timer option \<times> page" where
  "showTimer now p =
     (if loading p \<or> pageError p \<noteq> [] then (None, p)
      else let t = mountTimer (qTimeRemaining (quizState (socket p))) True True
           in (Some t, runPage (replicate (timeUpCalls t) (now, TimeUp)) p))"

definition examplePage :: page where
  \<comment> \<open>A page whose two questions have been loaded, before any channel event.\<close>
  "examplePage =
     quizLoaded 5 [\<lparr>questionId = ''q1'', questionText = ''x''\<rparr>,
                   \<lparr>questionId = ''q2'', questionText = ''y''\<rparr>] 0
       (mountPage 0 (Some ''t'') (Some ''s''))"

section \<open>Properties of the timer\<close>

subsection \<open>Formatting\<close>

lemma of_char_digitChar: "d < 10 \<Longrightarrow> (of_char (digitChar d) :: nat) = 48 + d"
  by (simp add: digitChar_def)

lemma isDigit_digitChar: "d < 10 \<Longrightarrow> isDigit (digitChar d)"
  by (simp add: isDigit_def of_char_digitChar)

lemma natToString_digits: "list_all isDigit (natToString n)"
proof (induction n rule: natToString.induct)
  case (1 n)
  show ?case
  proof (cases "n < 10")
    case True
    then show ?thesis by (simp add: natToString.simps [of n] isDigit_digitChar)
  next
    case False
    with 1 show ?thesis by (simp add: natToString.simps [of n] isDigit_digitChar)
  qed
qed

lemma digitsValue_snoc: "digitsValue (s @ [c]) = 10 * digitsValue s + (of_char c - 48)"
  by (simp add: digitsValue_def)

lemma digitsValue_natToString: "digitsValue (natToString n) = n"
proof (induction n rule: natToString.induct)
  case (1 n)
  show ?case
  proof (cases "n < 10")
    case True
    then show ?thesis by (simp add: natToString.simps [of n] digitsValue_def of_char_digitChar)
  next
    case False
    with 1 show ?thesis
      by (simp add: natToString.simps [of n] digitsValue_snoc of_char_digitChar)
  qed
qed

lemma length_natToString_small: "n < 10 \<Longrightarrow> length (natToString n) = 1"
  by (simp add: natToString.simps [of n])

lemma length_natToString_two: "10 \<le> n \<Longrightarrow> n < 100 \<Longrightarrow> length (natToString n) = 2"
  by (simp add: natToString.simps [of n] length_natToString_small)

lemma natToString_nonempty: "natToString n \<noteq> []"
  by (simp add: natToString.simps [of n])

lemma splitOn_digits: "list_all isDigit a \<Longrightarrow> splitOn CHR '':'' a = [a]"
  by (induction a) (auto simp: isDigit_def)

lemma splitOn_field:
  "list_all isDigit a \<Longrightarrow> splitOn CHR '':'' (a @ CHR '':'' # b) = a # splitOn CHR '':'' b"
  by (induction a) (auto simp: isDigit_def)

lemma jsRem_nonneg: "0 \<le> a \<Longrightarrow> 0 < b \<Longrightarrow> jsRem a b = a mod b"
  by (cases "a = 0") (simp_all add: jsRem_def)

lemma toString_nonneg: "0 \<le> i \<Longrightarrow> toString i = natToString (nat i)"
  by (simp add: toString_def)

lemma digitsValue_zeros: "digitsValue (replicate k CHR ''0'' @ s) = digitsValue s"
proof -
  have "foldl (\<lambda>acc c. 10 * acc + (of_char c - 48)) 0 (replicate k CHR ''0'') = (0::nat)"
    by (induction k) simp_all
  then show ?thesis by (simp add: digitsValue_def)
qed

lemma pad2_length: "n < 100 \<Longrightarrow> length (padStart 2 CHR ''0'' (natToString n)) = 2"
  by (cases "n < 10") (simp_all add: padStart_def length_natToString_small length_natToString_two)

lemma pad2_value: "digitsValue (padStart 2 CHR ''0'' (natToString n)) = n"
  by (simp add: padStart_def digitsValue_zeros digitsValue_natToString)

lemma pad2_digits: "list_all isDigit (padStart 2 CHR ''0'' (natToString n))"
proof -
  have "list_all isDigit (replicate k CHR ''0'')" for k
    by (induction k) (simp_all add: isDigit_def)
  then show ?thesis by (simp add: padStart_def natToString_digits)
qed

lemma formatTime_short:
  assumes "0 \<le> s" "s < 3600"
  shows "formatTime s = natToString (nat (s div 60)) @ '':'' @ padStart 2 CHR ''0'' (natToString (nat (s mod 60)))"
proof -
  have h: "s div 3600 = 0" using assms by simp
  have m: "s mod 3600 = s" using assms by simp
  show ?thesis using assms
    by (simp add: formatTime_def Let_def h m jsRem_nonneg toString_nonneg)
qed

lemma formatTime_long:
  assumes "3600 \<le> s"
  shows "formatTime s = natToString (nat (s div 3600)) @ '':'' @
           padStart 2 CHR ''0'' (natToString (nat (s mod 3600 div 60))) @ '':'' @
           padStart 2 CHR ''0'' (natToString (nat (s mod 60)))"
proof -
  have h: "0 < s div 3600" using assms by (simp add: pos_imp_zdiv_pos_iff)
  show ?thesis using assms h
    by (simp add: formatTime_def Let_def jsRem_nonneg toString_nonneg)
qed

text \<open>
  Claim C8. For every non-negative whole number of seconds \<open>s\<close> that a double holds
  exactly (\<open>s \<le> maxSafeInteger\<close>), \<open>formatTime\<close> renders \<open>s\<close> as \<open>H:MM:SS\<close> when
  \<open>s \<ge> 3600\<close> and as \<open>M:SS\<close> otherwise: the fields between the colons are decimal
  digits, they denote the hours, the minutes and the seconds of \<open>s\<close>, the minute field
  after an hour field and the second field have exactly two characters, and the leading
  field is the plain numeral. 125 seconds render as \<open>2:05\<close> and 300 seconds as \<open>5:00\<close>.
\<close>

theorem formatTime_fields:
  "0 \<le> s \<Longrightarrow> s \<le> maxSafeInteger \<Longrightarrow>
     (let fields = splitOn CHR '':'' (formatTime s) in
        list_all (list_all isDigit) fields \<and>
        hd fields = natToString (digitsValue (hd fields)) \<and>
        (if 3600 \<le> s
         then map digitsValue fields = [nat (s div 3600), nat (s mod 3600 div 60), nat (s mod 60)] \<and>
              map length (tl fields) = [2, 2]
         else map digitsValue fields = [nat (s div 60), nat (s mod 60)] \<and>
              map length (tl fields) = [2])) \<and>
     formatTime 125 = ''2:05'' \<and> formatTime 300 = ''5:00''"
proof -
  assume s: "0 \<le> s" and safe: "s \<le> maxSafeInteger"
  have m60: "nat (s mod 60) < 100" using s by simp
  have mm: "nat (s mod 3600 div 60) < 100" using s by simp
  have a: "formatTime 125 = ''2:05''" by code_simp
  have b: "formatTime 300 = ''5:00''" by code_simp
  show ?thesis
  proof (cases "3600 \<le> s")
    case True
    then show ?thesis using a b m60 mm
      by (simp add: formatTime_long splitOn_field splitOn_digits natToString_digits
          pad2_digits pad2_length pad2_value digitsValue_natToString)
  next
    case False
    then show ?thesis using a b m60 s
      by (simp add: formatTime_short splitOn_field splitOn_digits natToString_digits
          pad2_digits pad2_length pad2_value digitsValue_natToString)
  qed
qed

theorem formatTime_fields_witness:
  "(0::int) \<le> 3725 \<and> 3725 \<le> maxSafeInteger \<and> formatTime 3725 = ''1:02:05'' \<and>
   map digitsValue (splitOn CHR '':'' (formatTime 3725)) = [1, 2, 5] \<and>
   map digitsValue (splitOn CHR '':'' (formatTime 125)) = [2, 5] \<and>
   map digitsValue (splitOn CHR '':'' (formatTime maxSafeInteger)) = [2501999792983, 36, 31]"
proof -
  have f: "formatTime 3725 = ''1:02:05''" by code_simp
  have g: "formatTime 125 = ''2:05''" by code_simp
  have a: "(3725::int) \<le> maxSafeInteger" "(125::int) \<le> maxSafeInteger"
    "(0::int) \<le> maxSafeInteger" "3600 \<le> maxSafeInteger"
    by (simp_all add: maxSafeInteger_def)
  have d: "nat (maxSafeInteger div 3600) = 2501999792983"
    "nat (maxSafeInteger mod 3600 div 60) = 36" "nat (maxSafeInteger mod 60) = 31"
    by (simp_all add: maxSafeInteger_def)
  show ?thesis
    using formatTime_fields [of 3725] formatTime_fields [of 125]
      formatTime_fields [of maxSafeInteger] f g a d
    by (simp add: Let_def)
qed

subsection \<open>Bands, expiry and intervals\<close>

lemma setBands_band: "timerBand (setBands r t) = specBand r"
  by (simp add: setBands_def timerBand_def specBand_def)

lemma flags_countdownEffect [simp]:
  "isWarning (countdownEffect t) = isWarning t" "isCritical (countdownEffect t) = isCritical t"
  by (simp_all add: countdownEffect_def callOnTimeUp_def Let_def)

lemma flags_runCountdownCleanup [simp]:
  "isWarning (runCountdownCleanup t) = isWarning t"
  "isCritical (runCountdownCleanup t) = isCritical t"
  by (simp_all add: runCountdownCleanup_def split: option.splits)

lemma timerBand_setTimeRemaining: "timerBand (setTimeRemaining v t) = timerBand t"
  by (simp add: setTimeRemaining_def timerBand_def)

lemma timeRemaining_countdownEffect [simp]:
  "timeRemaining (countdownEffect t) = timeRemaining t"
  by (simp add: countdownEffect_def callOnTimeUp_def Let_def)

lemma timeRemaining_runCountdownCleanup [simp]:
  "timeRemaining (runCountdownCleanup t) = timeRemaining t"
  by (simp add: runCountdownCleanup_def split: option.splits)

lemma timeRemaining_setTimeRemaining: "timeRemaining (setTimeRemaining v t) = v"
  by (simp add: setTimeRemaining_def)

lemma timerBand_callOnTimeUp: "timerBand (callOnTimeUp t) = timerBand t"
  by (simp add: callOnTimeUp_def timerBand_def)

lemma tick_running:
  "countdownRunning t \<Longrightarrow>
     timeRemaining (tick t) = max 0 (timeRemaining t - 1) \<and>
     timerBand (tick t) = specBand (max 0 (timeRemaining t - 1))"
  by (simp add: tick_def Let_def timeRemaining_setTimeRemaining timerBand_setTimeRemaining
      timerBand_callOnTimeUp setBands_band)

text \<open>
  Claim C4. The band is a function of the post-decrement value alone and is exact at the
  boundaries: when the running countdown fires at \<open>r + 1\<close> with \<open>r \<ge> 0\<close>, the
  remaining time becomes \<open>r\<close> and the band shown is the band the specification gives
  \<open>r\<close> (above 60 normal, 31 to 60 warning, 0 to 30 critical); 61 is normal, 60 and 31
  are warning, 30 and 0 are critical.
\<close>

theorem band_exact_at_boundaries:
  "0 \<le> r \<Longrightarrow> countdownRunning t \<Longrightarrow> timeRemaining t = r + 1 \<Longrightarrow>
     timeRemaining (tick t) = r \<and>
     timerBand (tick t) = specBand r \<and>
     timerBand (setBands r u) = specBand r \<and>
     timerBand (setBands 61 u) = Normal \<and>
     timerBand (setBands 60 u) = Warning \<and>
     timerBand (setBands 31 u) = Warning \<and>
     timerBand (setBands 30 u) = Critical \<and>
     timerBand (setBands 0 u) = Critical"
  using tick_running [of t] by (simp add: setBands_band specBand_def)

theorem band_exact_at_boundaries_witness:
  "(0::int) \<le> 60 \<and> countdownRunning (mountTimer (Some 61) True True) \<and>
   timeRemaining (mountTimer (Some 61) True True) = 60 + 1 \<and>
   timerBand (mountTimer (Some 61) True True) = Normal \<and>
   timeRemaining (tick (mountTimer (Some 61) True True)) = 60 \<and>
   timerBand (tick (mountTimer (Some 61) True True)) = Warning"
proof -
  have a: "countdownRunning (mountTimer (Some 61) True True)" by code_simp
  have b: "timeRemaining (mountTimer (Some 61) True True) = 60 + 1" by code_simp
  have c: "timerBand (mountTimer (Some 61) True True) = Normal" by code_simp
  show ?thesis
    using band_exact_at_boundaries [of 60 "mountTimer (Some 61) True True", OF _ a b] a b c
    by (simp add: specBand_def)
qed

text \<open>
  A countdown from any \<open>n > 0\<close> that is left alone (no sync, no render of the page) calls
  \<^verbatim>\<open>onTimeUp\<close> twice at its last tick and never before.
\<close>

lemma effect_positive:
  "0 < timeRemaining t \<Longrightarrow>
     countdownRunning (countdownEffect t) \<and> timeUpCalls (countdownEffect t) = timeUpCalls t \<and>
     hasOnTimeUp (countdownEffect t) = hasOnTimeUp t"
  by (simp add: countdownEffect_def countdownRunning_def Let_def)

lemma effect_expired:
  "timeRemaining t \<le> 0 \<Longrightarrow> hasOnTimeUp t \<Longrightarrow>
     timeUpCalls (countdownEffect t) = timeUpCalls t + 1"
  by (simp add: countdownEffect_def callOnTimeUp_def)

lemma cleanup_keeps [simp]:
  "timeUpCalls (runCountdownCleanup t) = timeUpCalls t"
  "hasOnTimeUp (runCountdownCleanup t) = hasOnTimeUp t"
  by (cases "countdownCleanup t"; simp add: runCountdownCleanup_def)+

lemma setBands_keeps [simp]:
  "timeUpCalls (setBands r t) = timeUpCalls t" "hasOnTimeUp (setBands r t) = hasOnTimeUp t"
  "timeRemaining (setBands r t) = timeRemaining t"
  by (simp_all add: setBands_def)

lemma tick_above_one:
  assumes "countdownRunning t" "1 < timeRemaining t"
  shows "timeRemaining (tick t) = timeRemaining t - 1 \<and> timeUpCalls (tick t) = timeUpCalls t \<and>
         countdownRunning (tick t) \<and> hasOnTimeUp (tick t) = hasOnTimeUp t"
proof -
  let ?u = "runCountdownCleanup ((setBands (timeRemaining t - 1) t)\<lparr>timeRemaining := timeRemaining t - 1\<rparr>)"
  have e: "tick t = countdownEffect ?u"
    using assms by (simp add: tick_def Let_def setTimeRemaining_def)
  have p: "0 < timeRemaining ?u" using assms(2) by simp
  show ?thesis unfolding e using effect_positive [OF p] by simp
qed

lemma tick_at_one:
  assumes "countdownRunning t" "timeRemaining t = 1" "hasOnTimeUp t"
  shows "timeRemaining (tick t) = 0 \<and> timeUpCalls (tick t) = timeUpCalls t + 2"
proof -
  let ?c = "callOnTimeUp (setBands 0 t)"
  let ?u = "runCountdownCleanup (?c\<lparr>timeRemaining := 0\<rparr>)"
  have e: "tick t = countdownEffect ?u"
    using assms by (simp add: tick_def Let_def setTimeRemaining_def callOnTimeUp_def)
  have c: "timeUpCalls ?u = timeUpCalls t + 1" "hasOnTimeUp ?u" "timeRemaining ?u \<le> 0"
    using assms(3) by (simp_all add: callOnTimeUp_def)
  show ?thesis unfolding e using effect_expired [OF c(3) c(2)] c(1) by simp
qed

lemma runTimer_snoc: "runTimer (evs @ [e]) t = timerStep (runTimer evs t) e"
  by (simp add: runTimer_def)

lemma ticks_Suc: "runTimer (replicate (Suc k) Tick) t = tick (runTimer (replicate k Tick) t)"
proof -
  have "replicate (Suc k) Tick = replicate k Tick @ [Tick]"
    by (simp add: replicate_append_same)
  then show ?thesis by (simp only: runTimer_snoc timerStep.simps)
qed

lemma mounted_positive:
  "0 < n \<Longrightarrow>
     timeRemaining (mountTimer (Some n) True sync) = n \<and>
     timeUpCalls (mountTimer (Some n) True sync) = 0 \<and>
     countdownRunning (mountTimer (Some n) True sync) \<and>
     hasOnTimeUp (mountTimer (Some n) True sync)"
  by (simp add: mountTimer_def Let_def setTimeRemaining_def countdownEffect_def
      timeSyncEffect_def countdownRunning_def)

lemma ticks_before_expiry:
  "k < n \<Longrightarrow>
     timeRemaining (runTimer (replicate k Tick) (mountTimer (Some (int n)) True sync)) = int n - int k \<and>
     timeUpCalls (runTimer (replicate k Tick) (mountTimer (Some (int n)) True sync)) = 0 \<and>
     countdownRunning (runTimer (replicate k Tick) (mountTimer (Some (int n)) True sync)) \<and>
     hasOnTimeUp (runTimer (replicate k Tick) (mountTimer (Some (int n)) True sync))"
proof (induction k)
  case 0
  then show ?case using mounted_positive [of "int n" sync] by (simp add: runTimer_def)
next
  case (Suc k)
  let ?t = "runTimer (replicate k Tick) (mountTimer (Some (int n)) True sync)"
  have ih: "timeRemaining ?t = int n - int k" "timeUpCalls ?t = 0" "countdownRunning ?t"
    "hasOnTimeUp ?t"
    using Suc by simp_all
  have r: "runTimer (replicate (Suc k) Tick) (mountTimer (Some (int n)) True sync) = tick ?t"
    by (rule ticks_Suc)
  have g: "1 < timeRemaining ?t" using ih(1) Suc.prems by simp
  show ?case unfolding r using tick_above_one [OF ih(3) g] ih by simp
qed

lemma countdown_calls_twice:
  assumes "0 < n"
  shows "timeRemaining (runTimer (replicate n Tick) (mountTimer (Some (int n)) True sync)) = 0 \<and>
         timeUpCalls (runTimer (replicate n Tick) (mountTimer (Some (int n)) True sync)) = 2"
proof -
  obtain k where k: "n = Suc k" using assms by (cases n) simp_all
  let ?t = "runTimer (replicate k Tick) (mountTimer (Some (int n)) True sync)"
  have b: "timeRemaining ?t = 1" "timeUpCalls ?t = 0" "countdownRunning ?t" "hasOnTimeUp ?t"
    using ticks_before_expiry [of k n sync] k by simp_all
  have r: "runTimer (replicate n Tick) (mountTimer (Some (int n)) True sync) = tick ?t"
    unfolding k by (rule ticks_Suc)
  show ?thesis unfolding r using tick_at_one [OF b(3) b(1) b(4)] b(2) by simp
qed

text \<open>
  Claim C2 says that the expiry callback is invoked exactly once per session. A timer
  mounted with one second left has not called it; the tick that brings the remaining time
  to 0 calls it in the updater (\<^verbatim>\<open>newTime === 0\<close>) and the countdown effect, run again
  for the new value, calls it a second time (\<^verbatim>\<open>timeRemaining <= 0\<close>); a later render of
  the page, which hands over a new \<^verbatim>\<open>onTimeUp\<close>, calls it a third time.
\<close>

theorem expiry_callback_fires_twice:
  "timeRemaining (mountTimer (Some 1) True True) = 1 \<and>
   timeUpCalls (mountTimer (Some 1) True True) = 0 \<and>
   timeRemaining (tick (mountTimer (Some 1) True True)) = 0 \<and>
   timeUpCalls (tick (mountTimer (Some 1) True True)) = 2 \<and>
   timeUpCalls (parentRender (Some 1) (tick (mountTimer (Some 1) True True))) = 3"
  by code_simp

lemma inv_callOnTimeUp: "timerInv t \<Longrightarrow> timerInv (callOnTimeUp t)"
  by (simp add: timerInv_def callOnTimeUp_def)

lemma inv_runCountdownCleanup: "timerInv t \<Longrightarrow> timerInv (runCountdownCleanup t)"
  by (cases "countdownCleanup t")
     (auto simp: timerInv_def runCountdownCleanup_def clearInterval_def)

lemma cc_runCountdownCleanup [simp]: "countdownCleanup (runCountdownCleanup t) = None"
  by (cases "countdownCleanup t") (simp_all add: runCountdownCleanup_def)

lemma inv_runSyncCleanup: "timerInv t \<Longrightarrow> timerInv (runSyncCleanup t)"
  by (cases "syncCleanup t")
     (auto simp: timerInv_def runSyncCleanup_def clearInterval_def)

lemma sc_runSyncCleanup [simp]: "syncCleanup (runSyncCleanup t) = None"
  by (cases "syncCleanup t") (simp_all add: runSyncCleanup_def)

lemma cc_runSyncCleanup [simp]: "countdownCleanup (runSyncCleanup t) = countdownCleanup t"
  by (cases "syncCleanup t") (simp_all add: runSyncCleanup_def)

lemma inv_countdownEffect:
  "timerInv t \<Longrightarrow> countdownCleanup t = None \<Longrightarrow> timerInv (countdownEffect t)"
  by (auto simp: timerInv_def countdownEffect_def callOnTimeUp_def Let_def)

lemma sc_countdownEffect [simp]: "syncCleanup (countdownEffect t) = syncCleanup t"
  by (simp add: countdownEffect_def callOnTimeUp_def Let_def)

lemma inv_timeSyncEffect:
  "timerInv t \<Longrightarrow> syncCleanup t = None \<Longrightarrow> timerInv (timeSyncEffect t)"
  by (auto simp: timerInv_def timeSyncEffect_def Let_def)

lemma inv_timeRemaining_update: "timerInv t \<Longrightarrow> timerInv (t\<lparr>timeRemaining := v\<rparr>)"
  by (simp add: timerInv_def)

lemma inv_setTimeRemaining: "timerInv t \<Longrightarrow> timerInv (setTimeRemaining v t)"
  by (simp add: setTimeRemaining_def inv_countdownEffect inv_runCountdownCleanup
      inv_timeRemaining_update)

lemma inv_setBands: "timerInv t \<Longrightarrow> timerInv (setBands r t)"
  by (simp add: timerInv_def setBands_def)

lemma inv_tick: "timerInv t \<Longrightarrow> timerInv (tick t)"
  by (simp add: tick_def Let_def inv_setTimeRemaining inv_setBands inv_callOnTimeUp)

lemma inv_syncTick: "timerInv t \<Longrightarrow> timerInv (syncTick t)"
  by (simp add: timerInv_def syncTick_def)

lemma inv_prop_update: "timerInv t \<Longrightarrow> timerInv (t\<lparr>initialTimeRemaining := v\<rparr>)"
  by (simp add: timerInv_def)

lemma inv_parentRender: "timerInv t \<Longrightarrow> timerInv (parentRender v t)"
  by (cases "hasOnTimeUp t"; cases "hasOnTimeSync t"; cases v)
     (simp_all add: parentRender_def Let_def inv_prop_update inv_runCountdownCleanup
        inv_runSyncCleanup inv_countdownEffect inv_timeSyncEffect inv_setTimeRemaining)

lemma inv_mountTimer: "timerInv (mountTimer init up sync)"
proof -
  let ?t0 = "\<lparr>initialTimeRemaining = init, hasOnTimeUp = up, hasOnTimeSync = sync,
                timeRemaining = (case init of None \<Rightarrow> 0 | Some v \<Rightarrow> v),
                isWarning = False, isCritical = False, intervals = [], nextIntervalId = 0,
                countdownCleanup = None, syncCleanup = None, timeUpCalls = 0,
                timeSyncCalls = 0\<rparr>"
  have a: "timerInv ?t0" by (simp add: timerInv_def)
  have b: "timerInv (countdownEffect ?t0)" using a by (simp add: inv_countdownEffect)
  have c: "timerInv (timeSyncEffect (countdownEffect ?t0))"
    using b by (simp add: inv_timeSyncEffect)
  show ?thesis
    using c by (simp add: mountTimer_def Let_def inv_setTimeRemaining split: option.splits)
qed

lemma inv_timerStep: "timerInv t \<Longrightarrow> timerInv (timerStep t e)"
  by (cases e) (simp_all add: inv_tick inv_syncTick inv_parentRender)

lemma inv_runTimer: "timerInv t \<Longrightarrow> timerInv (runTimer evs t)"
  unfolding runTimer_def by (induction evs arbitrary: t) (simp_all add: inv_timerStep)

lemma unmountTimer_clears: "timerInv t \<Longrightarrow> intervals (unmountTimer t) = []"
proof -
  assume i: "timerInv t"
  have b: "timerInv (unmountTimer t)"
    using i by (simp add: unmountTimer_def inv_runCountdownCleanup inv_runSyncCleanup)
  have c: "countdownCleanup (unmountTimer t) = None" "syncCleanup (unmountTimer t) = None"
    by (simp_all add: unmountTimer_def)
  have "\<forall>e \<in> set (intervals (unmountTimer t)). False"
    using b c by (simp add: timerInv_def)
  then show ?thesis by (cases "intervals (unmountTimer t)") auto
qed

lemma timer_unmount_releases:
  "intervals (unmountTimer (runTimer evs (mountTimer init up sync))) = []"
  by (simp add: unmountTimer_clears inv_runTimer inv_mountTimer)

section \<open>Properties of the integrity monitor\<close>

lemma securityInv_mount: "securityInv (mountSecurity en)"
  by (simp add: securityInv_def mountSecurity_def guardEffect_def blurEffect_def Let_def
      addEventListener_def)

lemma securityInv_runGuardCleanup:
  "securityInv s \<Longrightarrow> securityInv (runGuardCleanup s) \<and> guardCleanup (runGuardCleanup s) = None
     \<and> blurCleanup (runGuardCleanup s) = blurCleanup s \<and> enabled (runGuardCleanup s) = enabled s"
  by (cases "guardCleanup s")
     (simp_all add: securityInv_def runGuardCleanup_def removeEventListener_def)

lemma blurCleanup_cleared:
  "securityInv s \<Longrightarrow>
     windowListeners (runBlurCleanup s) = [] \<and> blurCleanup (runBlurCleanup s) = None \<and>
     docListeners (runBlurCleanup s) = docListeners s \<and>
     headStyles (runBlurCleanup s) = headStyles s \<and>
     guardCleanup (runBlurCleanup s) = guardCleanup s \<and>
     enabled (runBlurCleanup s) = enabled s"
  by (cases "blurCleanup s")
     (simp_all add: securityInv_def runBlurCleanup_def removeEventListener_def)

lemma unmountSecurity_clears:
  assumes "securityInv s"
  shows "docListeners (unmountSecurity s) = [] \<and> windowListeners (unmountSecurity s) = [] \<and>
         headStyles (unmountSecurity s) = []"
proof -
  let ?a = "runGuardCleanup s"
  have a: "securityInv ?a" "guardCleanup ?a = None"
    using securityInv_runGuardCleanup [OF assms] by simp_all
  have d: "docListeners ?a = []" "headStyles ?a = []" using a by (simp_all add: securityInv_def)
  show ?thesis using blurCleanup_cleared [OF a(1)] d by (simp add: unmountSecurity_def)
qed

lemma rerun_effects:
  assumes "guardCleanup s = None" "blurCleanup s = None" "docListeners s = []"
    "windowListeners s = []" "headStyles s = []"
  shows "securityInv (blurEffect (guardEffect s)) \<and>
         violationCount (blurEffect (guardEffect s)) = (if enabled s then Some 0 else None) \<and>
         console (blurEffect (guardEffect s)) = console s"
  using assms
  by (simp add: securityInv_def guardEffect_def blurEffect_def Let_def addEventListener_def
      violationCount_def)

lemma enabled_effects: "enabled (blurEffect (guardEffect s)) = enabled s"
  by (simp add: guardEffect_def blurEffect_def Let_def)

lemma setEnabled_changed:
  assumes "securityInv s" "en \<noteq> enabled s"
  shows "securityInv (setEnabled en s) \<and>
         violationCount (setEnabled en s) = (if en then Some 0 else None) \<and>
         console (setEnabled en s) = console s \<and> enabled (setEnabled en s) = en"
proof -
  let ?u = "s\<lparr>enabled := en\<rparr>"
  let ?a = "runGuardCleanup ?u"
  have ga: "docListeners ?a = [] \<and> headStyles ?a = [] \<and> guardCleanup ?a = None \<and>
            windowListeners ?a = windowListeners s \<and> blurCleanup ?a = blurCleanup s \<and>
            console ?a = console s \<and> enabled ?a = en"
    using assms(1)
    by (cases "guardCleanup s")
       (simp_all add: securityInv_def runGuardCleanup_def removeEventListener_def)
  let ?b = "runBlurCleanup ?a"
  have gb: "docListeners ?b = [] \<and> headStyles ?b = [] \<and> guardCleanup ?b = None \<and>
            windowListeners ?b = [] \<and> blurCleanup ?b = None \<and> console ?b = console s \<and>
            enabled ?b = en"
    using assms(1) ga
    by (cases "blurCleanup s")
       (simp_all add: securityInv_def runBlurCleanup_def removeEventListener_def)
  have en: "enabled (blurEffect (guardEffect ?b)) = en"
    using gb by (simp add: enabled_effects)
  have r: "setEnabled en s = blurEffect (guardEffect ?b)"
    using assms(2) by (simp add: setEnabled_def)
  show ?thesis
    unfolding r using rerun_effects [of ?b] gb en by presburger
qed

lemma securityInv_setEnabled: "securityInv s \<Longrightarrow> securityInv (setEnabled en s)"
  using setEnabled_changed [of s en] by (cases "en = enabled s") (simp_all add: setEnabled_def)

lemma windowBlur_attached:
  assumes "securityInv s" "blurCleanup s = Some g"
  shows "windowBlur s = handleBlur s g"
  using assms by (simp add: securityInv_def windowBlur_def listenersFor_def)

lemma windowBlur_detached:
  assumes "securityInv s" "blurCleanup s = None"
  shows "windowBlur s = s"
  using assms by (simp add: securityInv_def windowBlur_def listenersFor_def)

lemma securityInv_handleBlur: "securityInv s \<Longrightarrow> securityInv (handleBlur s g)"
  by (simp add: securityInv_def handleBlur_def Let_def)

lemma securityInv_windowBlur: "securityInv s \<Longrightarrow> securityInv (windowBlur s)"
  by (cases "blurCleanup s")
     (simp_all add: windowBlur_attached windowBlur_detached securityInv_handleBlur)

lemma securityInv_windowFocus: "securityInv s \<Longrightarrow> securityInv (windowFocus s)"
  by (cases "blurCleanup s")
     (simp_all add: securityInv_def windowFocus_def listenersFor_def handleFocus_def)

lemma securityInv_step: "securityInv s \<Longrightarrow> securityInv (securityStep s e)"
  by (cases e) (simp_all add: securityInv_windowBlur securityInv_windowFocus securityInv_setEnabled)

lemma securityInv_run: "securityInv s \<Longrightarrow> securityInv (runSecurity evs s)"
  unfolding runSecurity_def by (induction evs arbitrary: s) (simp_all add: securityInv_step)

lemma runSecurity_append: "runSecurity (xs @ ys) s = runSecurity ys (runSecurity xs s)"
  by (simp add: runSecurity_def)

lemma blur_counts_one:
  assumes "securityInv s" "violationCount s = Some n"
  shows "violationCount (windowBlur s) = Some (n + 1) \<and>
         console (windowBlur s) =
           console s @ TabSwitchDetected (n + 1) 3 #
             (if n + 1 \<ge> 3 then [MaxTabSwitchesExceeded] else [])"
proof -
  obtain g where g: "blurCleanup s = Some g" "blurCountOf s g = n"
    using assms(2) by (auto simp: violationCount_def split: option.splits)
  show ?thesis
    using g by (simp add: windowBlur_attached [OF assms(1) g(1)] handleBlur_def Let_def
        violationCount_def maxBlurCount_def)
qed

lemma toggle_off_on:
  assumes "securityInv s"
  shows "violationCount (setEnabled True (setEnabled False s)) = Some 0 \<and>
         securityInv (setEnabled True (setEnabled False s))"
proof (cases "enabled s")
  case True
  let ?a = "setEnabled False s"
  have a: "securityInv ?a \<and> enabled ?a = False"
    using setEnabled_changed [OF assms, of False] True by simp
  show ?thesis using setEnabled_changed [of ?a True] a by simp
next
  case False
  then have "setEnabled False s = s" by (simp add: setEnabled_def)
  then show ?thesis using setEnabled_changed [OF assms, of True] False by simp
qed

text \<open>
  Claim C1, amended. Disabling and then re-enabling the monitor restarts the violation
  count: after any history, a disable followed by a re-enable leaves the count at 0 and
  one further window blur yields count 1, whatever was accumulated before; while the
  monitor stays enabled, each window blur raises the count by one.
\<close>

theorem toggle_restarts_count:
  "violationCount (runSecurity (evs @ [SetEnabled False, SetEnabled True]) (mountSecurity en)) = Some 0 \<and>
   violationCount (runSecurity (evs @ [SetEnabled False, SetEnabled True, WindowBlur]) (mountSecurity en)) = Some 1 \<and>
   (violationCount (runSecurity evs (mountSecurity en)) = Some n \<longrightarrow>
      violationCount (runSecurity (evs @ [WindowBlur]) (mountSecurity en)) = Some (n + 1))"
proof -
  let ?s = "runSecurity evs (mountSecurity en)"
  have i: "securityInv ?s" by (simp add: securityInv_run securityInv_mount)
  let ?t = "setEnabled True (setEnabled False ?s)"
  have t: "violationCount ?t = Some 0" "securityInv ?t" using toggle_off_on [OF i] by simp_all
  have r2: "runSecurity (evs @ [SetEnabled False, SetEnabled True]) (mountSecurity en) = ?t"
    by (simp add: runSecurity_def)
  have r3: "runSecurity (evs @ [SetEnabled False, SetEnabled True, WindowBlur]) (mountSecurity en)
            = windowBlur ?t"
    by (simp add: runSecurity_def)
  have r1: "runSecurity (evs @ [WindowBlur]) (mountSecurity en) = windowBlur ?s"
    by (simp add: runSecurity_def)
  show ?thesis
    using t(1) blur_counts_one [OF t(2) t(1)] blur_counts_one [OF i] by (simp add: r1 r2 r3)
qed

theorem toggle_restarts_count_witness:
  "violationCount (runSecurity [WindowBlur, WindowBlur] (mountSecurity True)) = Some 2 \<and>
   violationCount (runSecurity ([WindowBlur, WindowBlur] @ [WindowBlur]) (mountSecurity True)) = Some (2 + 1) \<and>
   violationCount (runSecurity ([WindowBlur, WindowBlur] @ [SetEnabled False, SetEnabled True, WindowBlur]) (mountSecurity True)) = Some 1"
proof -
  have a: "violationCount (runSecurity [WindowBlur, WindowBlur] (mountSecurity True)) = Some 2"
    by code_simp
  show ?thesis
    using toggle_restarts_count [of "[WindowBlur, WindowBlur]" True 2] a by simp
qed

text \<open>
  The claim as stated fails: two blurs give count 2, and after a disable and a re-enable
  the next blur is reported as 1 of 3, not as 3.
\<close>

theorem toggle_count_counterexample:
  "violationCount (runSecurity [WindowBlur, WindowBlur] (mountSecurity True)) = Some 2 \<and>
   violationCount (runSecurity [WindowBlur, WindowBlur, SetEnabled False, SetEnabled True, WindowBlur]
      (mountSecurity True)) \<noteq> Some 3 \<and>
   console (runSecurity [WindowBlur, WindowBlur, SetEnabled False, SetEnabled True, WindowBlur]
      (mountSecurity True)) =
     [TabSwitchDetected 1 3, TabSwitchDetected 2 3, TabSwitchDetected 1 3]"
  by code_simp

lemma security_unmount_releases:
  "docListeners (unmountSecurity (runSecurity evs (mountSecurity en))) = [] \<and>
   windowListeners (unmountSecurity (runSecurity evs (mountSecurity en))) = [] \<and>
   headStyles (unmountSecurity (runSecurity evs (mountSecurity en))) = []"
  by (simp add: unmountSecurity_clears securityInv_run securityInv_mount)

section \<open>Properties of the channel and the synchronizer\<close>

lemma offAll_connection: "offAll g (connectionHandlers 0 @ quizHandlers g) = connectionHandlers 0"
  by (simp add: offAll_def off_def connectionHandlers_def quizHandlers_def)

lemma offAll_none: "offAll g (quizHandlers g) = []"
  by (simp add: offAll_def off_def quizHandlers_def)

lemma runQuizCleanup_Some:
  "quizCleanup h = Some (g, j) \<Longrightarrow>
     runQuizCleanup h =
       (let h1 = h\<lparr>socketHandlers := offAll g (socketHandlers h), quizCleanup := None\<rparr>
        in if j then emitWith True LeaveQuiz h1 else h1)"
  by (simp add: runQuizCleanup_def offAll_def)

lemma handlers_runQuizCleanup:
  assumes "hookInv h"
  shows "hookInv (runQuizCleanup h) \<and> quizCleanup (runQuizCleanup h) = None \<and>
         autoSyncCleanup (runQuizCleanup h) = autoSyncCleanup h \<and>
         socketOpen (runQuizCleanup h) = socketOpen h \<and>
         token (runQuizCleanup h) = token h"
proof (cases "quizCleanup h")
  case None
  then show ?thesis using assms by (simp add: runQuizCleanup_def)
next
  case (Some c)
  obtain g j where c: "c = (g, j)" by (cases c)
  have q: "quizCleanup h = Some (g, j)" using Some c by simp
  show ?thesis
    using assms q
    by (simp add: runQuizCleanup_Some hookInv_def emitWith_def Let_def offAll_connection
        offAll_none)
qed

lemma handlers_quizEffect:
  assumes "hookInv h" "quizCleanup h = None"
  shows "hookInv (quizEffect h) \<and> autoSyncCleanup (quizEffect h) = autoSyncCleanup h"
  using assms
  by (simp add: quizEffect_def hookInv_def emit_def emitWith_def Let_def on_def
      connectionHandlers_def quizHandlers_def)

lemma intervals_runAutoSyncCleanup:
  assumes "hookInv h"
  shows "hookInv (runAutoSyncCleanup h) \<and> autoSyncCleanup (runAutoSyncCleanup h) = None \<and>
         quizCleanup (runAutoSyncCleanup h) = quizCleanup h \<and>
         socketOpen (runAutoSyncCleanup h) = socketOpen h \<and>
         token (runAutoSyncCleanup h) = token h"
  using assms by (cases "autoSyncCleanup h") (simp_all add: runAutoSyncCleanup_def hookInv_def)

lemma intervals_autoSyncEffect:
  assumes "hookInv h" "autoSyncCleanup h = None"
  shows "hookInv (autoSyncEffect h)"
  using assms by (simp add: autoSyncEffect_def hookInv_def Let_def)

lemma hookInv_commit:
  assumes "hookInv new"
  shows "hookInv (commit old new)"
proof -
  let ?q = "quizDeps new \<noteq> quizDeps old"
  let ?a = "autoSyncDeps new \<noteq> autoSyncDeps old"
  let ?c1 = "if ?q then runQuizCleanup new else new"
  let ?c2 = "if ?a then runAutoSyncCleanup ?c1 else ?c1"
  let ?e1 = "if ?q then quizEffect ?c2 else ?c2"
  have c1: "hookInv ?c1" "?q \<Longrightarrow> quizCleanup ?c1 = None"
    "autoSyncCleanup ?c1 = autoSyncCleanup new"
    using handlers_runQuizCleanup [OF assms] assms by simp_all
  have c2: "hookInv ?c2" "?q \<Longrightarrow> quizCleanup ?c2 = None" "?a \<Longrightarrow> autoSyncCleanup ?c2 = None"
    using intervals_runAutoSyncCleanup [OF c1(1)] c1 by (simp_all split: if_splits)
  have e1: "hookInv ?e1" "?a \<Longrightarrow> autoSyncCleanup ?e1 = None"
    using handlers_quizEffect [of ?c2] c2 by (simp_all split: if_splits)
  have "hookInv (if ?a then autoSyncEffect ?e1 else ?e1)"
    using intervals_autoSyncEffect [of ?e1] e1 by (simp split: if_splits)
  then show ?thesis by (simp add: commit_def Let_def)
qed

lemma hookInv_frame:
  assumes "hookInv h"
  shows "hookInv (h\<lparr>isConnected := c, error := e\<rparr>)" "hookInv (h\<lparr>isConnected := c\<rparr>)"
    "hookInv (h\<lparr>error := e\<rparr>)" "hookInv (h\<lparr>quizState := q\<rparr>)" "hookInv (h\<lparr>activeUsers := n\<rparr>)"
    "hookInv (h\<lparr>outbox := ob\<rparr>)"
  using assms by (simp_all add: hookInv_def)

lemma hookInv_deliver:
  assumes "hookInv h" "\<And>x. hookInv x \<Longrightarrow> hookInv (f x)"
  shows "hookInv (deliver name f h)"
proof -
  have "hookInv (foldl (\<lambda>x _. f x) h ls)" for ls :: "nat list"
    using assms by (induction ls arbitrary: h) simp_all
  then show ?thesis using assms(1) by (simp add: deliver_def)
qed

lemma hookInv_onTransport: "hookInv h \<Longrightarrow> hookInv (onTransport e h)"
  by (cases e) (simp_all add: hookInv_deliver hookInv_frame)

lemma hookInv_onInbound: "hookInv h \<Longrightarrow> hookInv (onInbound e h)"
  by (cases e) (simp_all add: hookInv_deliver hookInv_frame updateQuizState_def)

lemma hookInv_autoSyncTick: "hookInv h \<Longrightarrow> hookInv (autoSyncTick h)"
  by (simp add: autoSyncTick_def emitWith_def hookInv_frame)

lemma hookInv_hookStep: "hookInv h \<Longrightarrow> hookInv (hookStep h e)"
  unfolding hookStep_def
  by (cases e) (simp_all add: hookInv_commit hookInv_onTransport hookInv_onInbound
      hookInv_autoSyncTick)

lemma hookInv_runHook: "hookInv h \<Longrightarrow> hookInv (runHook evs h)"
  unfolding runHook_def by (induction evs arbitrary: h) (simp_all add: hookInv_hookStep)

lemma hookInv_mountHook: "hookInv (mountHook tok sess)"
  by (simp add: mountHook_def socketEffect_def hookInv_def Let_def on_def
      connectionHandlers_def)

lemma unmountHook_clears:
  assumes "hookInv h"
  shows "hookIntervals (unmountHook h) = [] \<and>
         socketHandlers (unmountHook h) = (if truthy (token h) then connectionHandlers 0 else []) \<and>
         \<not> socketOpen (unmountHook h)"
proof -
  let ?a = "runSocketCleanup h"
  have a: "hookInv ?a" "\<not> socketOpen ?a" "token ?a = token h"
    using assms by (auto simp: runSocketCleanup_def hookInv_def)
  let ?b = "runQuizCleanup ?a"
  have b: "hookInv ?b" "quizCleanup ?b = None" "\<not> socketOpen ?b" "token ?b = token h"
    using handlers_runQuizCleanup [OF a(1)] a by simp_all
  let ?c = "runAutoSyncCleanup ?b"
  have c: "hookInv ?c" "quizCleanup ?c = None" "autoSyncCleanup ?c = None" "\<not> socketOpen ?c"
    "token ?c = token h"
    using intervals_runAutoSyncCleanup [OF b(1)] b by simp_all
  show ?thesis using c by (simp add: unmountHook_def hookInv_def)
qed

lemma foldl_const_pres:
  assumes "\<And>x. sel (f x) = sel x"
  shows "sel (foldl (\<lambda>x _. f x) h ls) = sel h"
  using assms by (induction ls arbitrary: h) simp_all

lemma deliver_pres:
  assumes "\<And>x. sel (f x) = sel x"
  shows "sel (deliver name f h) = sel h"
proof (cases "socketOpen h")
  case True
  have "sel (foldl (\<lambda>x _. f x) h (listenersFor name (socketHandlers h))) = sel h"
    by (rule foldl_const_pres) (rule assms)
  then show ?thesis using True by (simp add: deliver_def)
next
  case False
  then show ?thesis by (simp add: deliver_def)
qed

lemma runQuizCleanup_frame:
  "quizState (runQuizCleanup h) = quizState h \<and> token (runQuizCleanup h) = token h"
  by (cases "quizCleanup h")
     (auto simp: runQuizCleanup_def emitWith_def Let_def split: prod.splits)

lemma runAutoSyncCleanup_frame:
  "quizState (runAutoSyncCleanup h) = quizState h \<and> token (runAutoSyncCleanup h) = token h"
  by (cases "autoSyncCleanup h") (simp_all add: runAutoSyncCleanup_def)

lemma quizEffect_frame:
  "quizState (quizEffect h) = quizState h \<and> token (quizEffect h) = token h"
  by (simp add: quizEffect_def emit_def emitWith_def Let_def)

lemma autoSyncEffect_frame:
  "quizState (autoSyncEffect h) = quizState h \<and> token (autoSyncEffect h) = token h"
  by (simp add: autoSyncEffect_def Let_def)

lemma commit_frame:
  "quizState (commit old new) = quizState new \<and> token (commit old new) = token new"
  by (simp add: commit_def Let_def runQuizCleanup_frame runAutoSyncCleanup_frame
      quizEffect_frame autoSyncEffect_frame)

lemma token_hookHandle: "token (hookHandle h e) = token h"
proof (cases e)
  case (Transport x)
  then show ?thesis by (cases x) (simp_all add: deliver_pres)
next
  case (Inbound x)
  then show ?thesis by (cases x) (simp_all add: deliver_pres updateQuizState_def)
next
  case AutoSyncTick
  then show ?thesis by (simp add: autoSyncTick_def emitWith_def)
qed

lemma token_hookStep: "token (hookStep h e) = token h"
  by (simp add: hookStep_def commit_frame token_hookHandle)

lemma token_runHook: "token (runHook evs h) = token h"
  unfolding runHook_def by (induction evs arbitrary: h) (simp_all add: token_hookStep)

lemma token_mountHook: "token (mountHook tok sess) = tok"
  by (simp add: mountHook_def socketEffect_def Let_def)

lemma time_hookHandle:
  "\<not> setsTime e \<Longrightarrow> qTimeRemaining (quizState (hookHandle h e)) = qTimeRemaining (quizState h)"
proof (cases e)
  case (Transport x)
  then show ?thesis
    by (cases x) (simp_all add: deliver_pres [where sel = "\<lambda>h. qTimeRemaining (quizState h)"])
next
  case (Inbound x)
  assume "\<not> setsTime e"
  with Inbound show ?thesis
    by (cases x)
       (simp_all add: deliver_pres [where sel = "\<lambda>h. qTimeRemaining (quizState h)"]
          updateQuizState_def handleQuestionChanged_def handleQuizCompleted_def)
next
  case AutoSyncTick
  then show ?thesis by (simp add: autoSyncTick_def emitWith_def)
qed

lemma time_hookStep:
  "\<not> setsTime e \<Longrightarrow> qTimeRemaining (quizState (hookStep h e)) = qTimeRemaining (quizState h)"
  by (simp add: hookStep_def commit_frame time_hookHandle)

lemma time_runHook:
  "list_all (\<lambda>e. \<not> setsTime e) evs \<Longrightarrow>
     qTimeRemaining (quizState (runHook evs h)) = qTimeRemaining (quizState h)"
  unfolding runHook_def by (induction evs arbitrary: h) (simp_all add: time_hookStep)

lemma time_mountHook: "qTimeRemaining (quizState (mountHook tok sess)) = None"
  by (simp add: mountHook_def socketEffect_def Let_def initialQuizState_def)

lemma time_sync_delivered:
  assumes "hookInv h" "socketOpen h" "quizCleanup h = Some c"
  shows "quizState (hookStep h (Inbound (TimeSync v))) = handleTimeSync v (quizState h)"
proof -
  have l: "listenersFor ''time_sync'' (socketHandlers h) = [fst c]"
    using assms(1,3)
    by (simp add: hookInv_def listenersFor_def connectionHandlers_def quizHandlers_def)
  have "quizState (hookHandle h (Inbound (TimeSync v))) = handleTimeSync v (quizState h)"
    using assms(2) l by (simp add: deliver_def updateQuizState_def)
  then show ?thesis by (simp add: hookStep_def commit_frame)
qed

lemma runSync_time:
  "qTimeRemaining (fst (runSync evs s)) =
     (case lastTimeSync evs of None \<Rightarrow> qTimeRemaining (fst s) | Some v \<Rightarrow> Some v)"
  unfolding runSync_def
proof (induction evs arbitrary: s)
  case Nil
  then show ?case by simp
next
  case (Cons e evs)
  obtain q t where s: "s = (q, t)" by (cases s)
  show ?case
    by (cases e) (simp_all add: Cons s Let_def handleTimeSync_def split: option.splits)
qed

text \<open>
  Claim C3. For every sequence of \<^verbatim>\<open>time_sync\<close> events interleaved with local countdown
  ticks, the synchronizer's remaining time after the sequence is the value of the last
  \<^verbatim>\<open>time_sync\<close> received: each \<^verbatim>\<open>time_sync\<close> overwrites it unconditionally, a local
  tick leaves the synchronizer's state as it is, and applying the same \<^verbatim>\<open>time_sync\<close>
  twice gives the same synchronizer state as applying it once.
\<close>

theorem last_time_sync_wins:
  "lastTimeSync evs = Some v \<Longrightarrow>
     qTimeRemaining (fst (runSync evs (q, t))) = Some v \<and>
     qTimeRemaining (handleTimeSync w q) = Some w \<and>
     handleTimeSync w (handleTimeSync w q) = handleTimeSync w q \<and>
     fst (syncStep (syncStep (q, t) (TimeSyncReceived w)) (TimeSyncReceived w)) =
       fst (syncStep (q, t) (TimeSyncReceived w)) \<and>
     fst (syncStep (q, t) LocalTick) = q"
  by (simp add: runSync_time handleTimeSync_def Let_def)

theorem last_time_sync_wins_witness:
  "lastTimeSync [TimeSyncReceived 300, LocalTick, TimeSyncReceived 125, LocalTick, LocalTick] = Some 125 \<and>
   qTimeRemaining (fst (runSync [TimeSyncReceived 300, LocalTick, TimeSyncReceived 125, LocalTick, LocalTick]
      (initialQuizState, mountTimer None True True))) = Some 125 \<and>
   timeRemaining (snd (runSync [TimeSyncReceived 300, LocalTick, TimeSyncReceived 125, LocalTick, LocalTick]
      (initialQuizState, mountTimer None True True))) = 123"
proof -
  have a: "lastTimeSync [TimeSyncReceived 300, LocalTick, TimeSyncReceived 125, LocalTick, LocalTick] = Some 125"
    by simp
  have b: "timeRemaining (snd (runSync [TimeSyncReceived 300, LocalTick, TimeSyncReceived 125, LocalTick, LocalTick]
      (initialQuizState, mountTimer None True True))) = 123"
    by code_simp
  show ?thesis
    using last_time_sync_wins [OF a, of initialQuizState "mountTimer None True True"] a b
    by simp
qed

lemma inRange_set: "indexInRange p \<Longrightarrow> 0 \<le> i \<Longrightarrow> i < int (length (questions p)) \<Longrightarrow>
  indexInRange (setCurrentQuestionIndex now i p)"
  by (simp add: indexInRange_def setCurrentQuestionIndex_def)

lemma questions_set [simp]: "questions (setCurrentQuestionIndex now i p) = questions p"
  by (simp add: setCurrentQuestionIndex_def)

lemma index_set [simp]: "currentQuestionIndex (setCurrentQuestionIndex now i p) = i"
  by (simp add: setCurrentQuestionIndex_def)

lemma socket_set [simp]: "socket (setCurrentQuestionIndex now i p) = socket p"
  by (simp add: setCurrentQuestionIndex_def)

lemma quizState_emit [simp]: "quizState (emit m h) = quizState h"
  by (simp add: emit_def emitWith_def)

lemma local_navigation_in_range:
  assumes "indexInRange p"
  shows "indexInRange (handleNextQuestion now p)" "indexInRange (handlePreviousQuestion now p)"
    "indexInRange (questionButton now i p)"
  using assms
  by (simp_all add: handleNextQuestion_def handlePreviousQuestion_def questionButton_def
      indexInRange_def Let_def)

lemma local_navigation_quizState:
  "quizState (socket (handleNextQuestion now p)) = quizState (socket p)"
  "quizState (socket (handlePreviousQuestion now p)) = quizState (socket p)"
  "quizState (socket (questionButton now i p)) = quizState (socket p)"
  by (simp_all add: handleNextQuestion_def handlePreviousQuestion_def questionButton_def
      nextQuestion_def Let_def)

text \<open>
  The timer's own value is a separate state. It is seeded again when the value handed
  down differs from the one handed down before; a \<^verbatim>\<open>time_sync\<close> that repeats the previous
  value leaves the timer where its local ticks have brought it.
\<close>

lemma timer_reseeded:
  "initialTimeRemaining t \<noteq> Some v \<Longrightarrow>
     timeRemaining (snd (syncStep (q, t) (TimeSyncReceived v))) = v"
  by (simp add: Let_def handleTimeSync_def parentRender_def timeRemaining_setTimeRemaining)

lemma timer_keeps_drift_on_repeat:
  "qTimeRemaining (fst (runSync [TimeSyncReceived 300, LocalTick, TimeSyncReceived 300]
      (initialQuizState, mountTimer None True True))) = Some 300 \<and>
   timeRemaining (snd (runSync [TimeSyncReceived 300, LocalTick, TimeSyncReceived 300]
      (initialQuizState, mountTimer None True True))) = 299"
  by code_simp

text \<open>
  Claim C7, amended. Local next and previous navigation and direct navigation to an index
  keep the page's index within the loaded questions and leave the synchronizer's quiz
  state untouched; an inbound \<^verbatim>\<open>question_changed\<close> overwrites the synchronizer's index
  with the index the server sent, so that once joined the invariant holds after it
  exactly when that index lies within \<open>0 ..< totalQuestions\<close>; and the remaining time
  stays unset as long as neither \<^verbatim>\<open>quiz_joined\<close> nor \<^verbatim>\<open>time_sync\<close> has been received.
\<close>

theorem navigation_keeps_index_in_range:
  "(indexInRange p \<longrightarrow>
      indexInRange (handleNextQuestion now p) \<and> indexInRange (handlePreviousQuestion now p) \<and>
      indexInRange (questionButton now i p)) \<and>
   quizState (socket (handleNextQuestion now p)) = quizState (socket p) \<and>
   quizState (socket (handlePreviousQuestion now p)) = quizState (socket p) \<and>
   quizState (socket (questionButton now i p)) = quizState (socket p) \<and>
   qCurrentQuestionIndex (handleQuestionChanged j q) = j \<and>
   (qIsJoined q \<longrightarrow>
      quizInvariant (handleQuestionChanged j q) = (0 \<le> j \<and> j < qTotalQuestions q)) \<and>
   (list_all (\<lambda>e. \<not> setsTime e) evs \<longrightarrow>
      qTimeRemaining (quizState (runHook evs (mountHook tok sess))) = None)"
  by (simp add: local_navigation_in_range local_navigation_quizState time_runHook
      time_mountHook handleQuestionChanged_def quizInvariant_def)

theorem navigation_keeps_index_in_range_witness:
  "indexInRange examplePage \<and>
   indexInRange (handleNextQuestion 1 examplePage) \<and>
   currentQuestionIndex (handleNextQuestion 1 examplePage) = 1 \<and>
   indexInRange (questionButton 1 1 examplePage) \<and>
   qIsJoined (handleQuizJoined 125 0 2 initialQuizState) \<and>
   quizInvariant (handleQuestionChanged 1 (handleQuizJoined 125 0 2 initialQuizState)) \<and>
   list_all (\<lambda>e. \<not> setsTime e) [Transport Connect, Inbound (QuestionChanged 1), AutoSyncTick] \<and>
   qTimeRemaining (quizState (runHook [Transport Connect, Inbound (QuestionChanged 1), AutoSyncTick]
      (mountHook (Some ''t'') (Some ''s'')))) = None"
proof -
  have a: "indexInRange examplePage" by code_simp
  have b: "currentQuestionIndex (handleNextQuestion 1 examplePage) = 1" by code_simp
  have c: "qIsJoined (handleQuizJoined 125 0 2 initialQuizState)"
    by (simp add: handleQuizJoined_def)
  have d: "qTotalQuestions (handleQuizJoined 125 0 2 initialQuizState) = 2"
    by (simp add: handleQuizJoined_def)
  have e: "list_all (\<lambda>e. \<not> setsTime e) [Transport Connect, Inbound (QuestionChanged 1), AutoSyncTick]"
    by simp
  show ?thesis
    using navigation_keeps_index_in_range [of examplePage 1 1 1
        "handleQuizJoined 125 0 2 initialQuizState"
        "[Transport Connect, Inbound (QuestionChanged 1), AutoSyncTick]" "Some ''t''" "Some ''s''"]
      a b c d e
    by simp
qed

text \<open>
  The claim as stated fails twice. After a join with two questions, a
  \<^verbatim>\<open>question_changed\<close> carrying index 7 leaves the joined synchronizer with an index
  outside the questions; and a \<^verbatim>\<open>time_sync\<close> that arrives before any \<^verbatim>\<open>quiz_joined\<close>
  sets the remaining time while the session is not joined.
\<close>

theorem question_changed_counterexample:
  "quizInvariant (quizState (runHook [Transport Connect, Inbound (QuizJoined 125 0 2)]
      (mountHook (Some ''t'') (Some ''s'')))) \<and>
   qIsJoined (quizState (runHook [Transport Connect, Inbound (QuizJoined 125 0 2), Inbound (QuestionChanged 7)]
      (mountHook (Some ''t'') (Some ''s'')))) \<and>
   \<not> quizInvariant (quizState (runHook [Transport Connect, Inbound (QuizJoined 125 0 2), Inbound (QuestionChanged 7)]
      (mountHook (Some ''t'') (Some ''s'')))) \<and>
   \<not> qIsJoined (quizState (runHook [Transport Connect, Inbound (TimeSync 300)]
      (mountHook (Some ''t'') (Some ''s'')))) \<and>
   qTimeRemaining (quizState (runHook [Transport Connect, Inbound (TimeSync 300)]
      (mountHook (Some ''t'') (Some ''s'')))) = Some 300"
  by code_simp

section \<open>Properties of the session controller\<close>

lemma runPage_gone: "navigatedTo p \<noteq> None \<Longrightarrow> runPage evs p = p"
  unfolding runPage_def by (induction evs) (simp_all add: pageStep_def)

lemma runPage_Cons: "runPage (e # evs) p = runPage evs (pageStep p e)"
  by (simp add: runPage_def)

lemma handleFinishQuiz_fields:
  "\<not> isSubmitting p \<Longrightarrow>
     finishQuizCalls (handleFinishQuiz p) = finishQuizCalls p + 1 \<and>
     navigatedTo (handleFinishQuiz p) = Some (resultsRoute (sessionToken (socket p))) \<and>
     warningCount (handleFinishQuiz p) = warningCount p \<and>
     \<not> isSubmitting (handleFinishQuiz p) \<and>
     outbox (socket (handleFinishQuiz p)) =
       outbox (socket p) @
         (if socketCreated (socket p) \<and> isConnected (socket p) then [FinishQuiz] else [])"
  by (simp add: handleFinishQuiz_def finishQuiz_def emit_def emitWith_def)

lemma violation_below:
  assumes "warningCount p < 2"
  shows "warningCount (handleSecurityViolation p) = warningCount p + 1"
    "finishQuizCalls (handleSecurityViolation p) = finishQuizCalls p"
    "navigatedTo (handleSecurityViolation p) = navigatedTo p"
    "isSubmitting (handleSecurityViolation p) = isSubmitting p"
  using assms by (simp_all add: handleSecurityViolation_def Let_def)

lemma violation_third:
  assumes "warningCount p \<ge> 2" "\<not> isSubmitting p"
  shows "warningCount (handleSecurityViolation p) = warningCount p + 1"
    "finishQuizCalls (handleSecurityViolation p) = finishQuizCalls p + 1"
    "navigatedTo (handleSecurityViolation p) \<noteq> None"
  using assms
  by (simp_all add: handleSecurityViolation_def Let_def handleFinishQuiz_def)

lemma violations_run:
  assumes "navigatedTo p = None" "\<not> isSubmitting p" "warningCount p \<le> 2"
  shows "warningCount (runPage (replicate k (now, SecurityViolation)) p) = min (warningCount p + k) 3 \<and>
         finishQuizCalls (runPage (replicate k (now, SecurityViolation)) p) =
           finishQuizCalls p + (if warningCount p + k \<ge> 3 then 1 else 0) \<and>
         (navigatedTo (runPage (replicate k (now, SecurityViolation)) p) \<noteq> None) =
           (warningCount p + k \<ge> 3)"
  using assms
proof (induction k arbitrary: p)
  case 0
  then show ?case by (simp add: runPage_def)
next
  case (Suc k)
  let ?p1 = "handleSecurityViolation p"
  have step: "pageStep p (now, SecurityViolation) = ?p1"
    using Suc.prems(1) by (simp add: pageStep_def)
  show ?case
  proof (cases "warningCount p < 2")
    case True
    have p1: "navigatedTo ?p1 = None" "\<not> isSubmitting ?p1" "warningCount ?p1 \<le> 2"
      "warningCount ?p1 = warningCount p + 1" "finishQuizCalls ?p1 = finishQuizCalls p"
      using violation_below [OF True] Suc.prems True by simp_all
    show ?thesis
      using Suc.IH [OF p1(1) p1(2) p1(3)] p1(4) p1(5) by (simp add: runPage_Cons step)
  next
    case False
    then have w: "warningCount p = 2" using Suc.prems(3) by simp
    have ge: "warningCount p \<ge> 2" using w by simp
    have gone: "runPage (replicate k (now, SecurityViolation)) ?p1 = ?p1"
      using violation_third(3) [OF ge Suc.prems(2)] by (rule runPage_gone)
    show ?thesis
      using violation_third [OF ge Suc.prems(2)] w by (simp add: runPage_Cons step gone)
  qed
qed

text \<open>
  Claim C5. The page keeps its own violation counter, raised by one on each
  \<^verbatim>\<open>securityViolation\<close> signal; from a fresh page, \<open>k\<close> signals call \<^verbatim>\<open>finishQuiz()\<close>
  not at all when \<open>k < 3\<close> and exactly once when \<open>k \<ge> 3\<close>, the call and the navigation
  to the results happening at the signal that brings the counter to 3. Independently,
  the timer's expiry callback calls \<^verbatim>\<open>finishQuiz()\<close> and navigates as well.
\<close>

theorem forced_finish_at_third_violation:
  "navigatedTo p = None \<Longrightarrow> \<not> isSubmitting p \<Longrightarrow> warningCount p = 0 \<Longrightarrow>
     warningCount (handleSecurityViolation p) = 1 \<and>
     warningCount (runPage (replicate k (now, SecurityViolation)) p) = min k 3 \<and>
     finishQuizCalls (runPage (replicate k (now, SecurityViolation)) p) =
       finishQuizCalls p + (if k \<ge> 3 then 1 else 0) \<and>
     (navigatedTo (runPage (replicate k (now, SecurityViolation)) p) \<noteq> None) = (k \<ge> 3) \<and>
     finishQuizCalls (runPage [(now, TimeUp)] p) = finishQuizCalls p + 1 \<and>
     navigatedTo (runPage [(now, TimeUp)] p) = Some (resultsRoute (sessionToken (socket p)))"
proof -
  assume a: "navigatedTo p = None" "\<not> isSubmitting p" "warningCount p = 0"
  have v: "warningCount (handleSecurityViolation p) = 1"
    using a by (simp add: violation_below)
  have t: "runPage [(now, TimeUp)] p = handleFinishQuiz p"
    using a by (simp add: runPage_def pageStep_def handleTimeUp_def)
  show ?thesis
    using violations_run [of p k now] handleFinishQuiz_fields [OF a(2)] a v by (simp add: t)
qed

theorem forced_finish_at_third_violation_witness:
  "navigatedTo examplePage = None \<and> \<not> isSubmitting examplePage \<and> warningCount examplePage = 0 \<and>
   warningCount (runPage (replicate 2 (9, SecurityViolation)) examplePage) = 2 \<and>
   finishQuizCalls (runPage (replicate 2 (9, SecurityViolation)) examplePage) = 0 \<and>
   navigatedTo (runPage (replicate 2 (9, SecurityViolation)) examplePage) = None \<and>
   warningCount (runPage (replicate 3 (9, SecurityViolation)) examplePage) = 3 \<and>
   finishQuizCalls (runPage (replicate 3 (9, SecurityViolation)) examplePage) = 1 \<and>
   navigatedTo (runPage (replicate 3 (9, SecurityViolation)) examplePage) \<noteq> None \<and>
   finishQuizCalls (runPage (replicate 5 (9, SecurityViolation)) examplePage) = 1"
proof -
  have a: "navigatedTo examplePage = None" by code_simp
  have b: "\<not> isSubmitting examplePage" by code_simp
  have c: "warningCount examplePage = 0" by code_simp
  have d: "finishQuizCalls examplePage = 0" by code_simp
  show ?thesis
    using forced_finish_at_third_violation [OF a b c, of 2 9]
      forced_finish_at_third_violation [OF a b c, of 3 9]
      forced_finish_at_third_violation [OF a b c, of 5 9] a b c d
    by simp
qed

lemma select_current:
  assumes "questionAt (questions p) (currentQuestionIndex p) = Some q" "questionId q \<noteq> []"
  shows "answers (handleAnswerSelect now a p) = (answers p)(questionId q \<mapsto> a)"
    "questions (handleAnswerSelect now a p) = questions p"
    "currentQuestionIndex (handleAnswerSelect now a p) = currentQuestionIndex p"
    "navigatedTo (handleAnswerSelect now a p) = navigatedTo p"
  using assms by (simp_all add: handleAnswerSelect_def Let_def)

lemma selects_run:
  assumes "questionAt (questions p) (currentQuestionIndex p) = Some q" "questionId q \<noteq> []"
    "navigatedTo p = None"
  shows "answers (runPage (map (\<lambda>e. (fst e, AnswerSelect (snd e))) sel) p) =
           (if sel = [] then answers p else (answers p)(questionId q \<mapsto> snd (last sel)))"
  using assms
proof (induction sel arbitrary: p)
  case Nil
  then show ?case by (simp add: runPage_def)
next
  case (Cons e sel)
  let ?p1 = "handleAnswerSelect (fst e) (snd e) p"
  have step: "pageStep p (fst e, AnswerSelect (snd e)) = ?p1"
    using Cons.prems(3) by (simp add: pageStep_def)
  have p1: "questionAt (questions ?p1) (currentQuestionIndex ?p1) = Some q"
    "navigatedTo ?p1 = None"
    "answers ?p1 = (answers p)(questionId q \<mapsto> snd e)"
    using select_current [OF Cons.prems(1) Cons.prems(2)] Cons.prems by simp_all
  show ?case
    using Cons.IH [OF p1(1) Cons.prems(2) p1(2)] p1(3)
    by (simp add: runPage_Cons step fun_eq_iff)
qed

text \<open>
  Claim C6. For the question on display and every non-empty sequence of answer
  selections for it, the recorded answer of that question is the option of the last
  selection, and the entries of all other questions are unchanged; selecting \<open>b\<close> and
  then \<open>a\<close> leaves \<open>a\<close>.
\<close>

theorem last_answer_wins:
  "questionAt (questions p) (currentQuestionIndex p) = Some q \<Longrightarrow> questionId q \<noteq> [] \<Longrightarrow>
   navigatedTo p = None \<Longrightarrow> sel \<noteq> [] \<Longrightarrow>
     answers (runPage (map (\<lambda>e. (fst e, AnswerSelect (snd e))) sel) p) (questionId q) =
       Some (snd (last sel)) \<and>
     (\<forall>k. k \<noteq> questionId q \<longrightarrow>
        answers (runPage (map (\<lambda>e. (fst e, AnswerSelect (snd e))) sel) p) k = answers p k) \<and>
     answers (runPage [(n1, AnswerSelect ''b''), (n2, AnswerSelect ''a'')] p) (questionId q) =
       Some ''a''"
proof -
  assume a: "questionAt (questions p) (currentQuestionIndex p) = Some q" "questionId q \<noteq> []"
    "navigatedTo p = None" "sel \<noteq> []"
  have ba: "answers (runPage [(n1, AnswerSelect ''b''), (n2, AnswerSelect ''a'')] p) =
            (answers p)(questionId q \<mapsto> ''a'')"
    using selects_run [OF a(1) a(2) a(3), of "[(n1, ''b''), (n2, ''a'')]"] by simp
  show ?thesis
    using selects_run [OF a(1) a(2) a(3), of sel] a(4) ba by simp
qed

theorem last_answer_wins_witness:
  "questionAt (questions examplePage) (currentQuestionIndex examplePage) =
     Some \<lparr>questionId = ''q1'', questionText = ''x''\<rparr> \<and>
   navigatedTo examplePage = None \<and>
   answers (runPage [(1000, AnswerSelect ''c''), (2000, AnswerSelect ''b''), (2500, AnswerSelect ''a'')]
      examplePage) ''q1'' = Some ''a'' \<and>
   answers (runPage [(1000, AnswerSelect ''c''), (2000, AnswerSelect ''b''), (2500, AnswerSelect ''a'')]
      examplePage) ''q2'' = None"
proof -
  have a: "questionAt (questions examplePage) (currentQuestionIndex examplePage) =
     Some \<lparr>questionId = ''q1'', questionText = ''x''\<rparr>" by code_simp
  have b: "questionId \<lparr>questionId = ''q1'', questionText = ''x''\<rparr> \<noteq> []" by simp
  have c: "navigatedTo examplePage = None" by code_simp
  have d: "[(1000, ''c''), (2000, ''b''), (2500::int, ''a'')] \<noteq> []" by simp
  have e: "answers examplePage ''q2'' = None" by code_simp
  show ?thesis
    using last_answer_wins [OF a b c d] a c e by simp
qed

lemma mount_unset:
  "timeRemaining (mountTimer None True sync) = 0 \<and> timeUpCalls (mountTimer None True sync) = 1 \<and>
   \<not> countdownRunning (mountTimer None True sync)"
  by (simp add: mountTimer_def countdownEffect_def timeSyncEffect_def callOnTimeUp_def
      countdownRunning_def Let_def)

text \<open>
  Claim C10. A timer mounted while the initial remaining time is unset starts at 0, calls
  \<^verbatim>\<open>onTimeUp\<close> at once and starts no countdown; on a page whose synchronizer has not
  received a time yet, showing the timer therefore calls \<^verbatim>\<open>finishQuiz()\<close> and navigates
  to the results before any server time has arrived.
\<close>

theorem unset_time_expires_at_once:
  "timeRemaining (mountTimer None True sync) = 0 \<and>
   timeUpCalls (mountTimer None True sync) = 1 \<and>
   \<not> countdownRunning (mountTimer None True sync) \<and>
   (qTimeRemaining (quizState (socket p)) = None \<and> \<not> loading p \<and> pageError p = [] \<and>
    navigatedTo p = None \<and> \<not> isSubmitting p \<longrightarrow>
      fst (showTimer now p) = Some (mountTimer None True True) \<and>
      finishQuizCalls (snd (showTimer now p)) = finishQuizCalls p + 1 \<and>
      navigatedTo (snd (showTimer now p)) = Some (resultsRoute (sessionToken (socket p))))"
proof -
  have "fst (showTimer now p) = Some (mountTimer None True True) \<and>
        finishQuizCalls (snd (showTimer now p)) = finishQuizCalls p + 1 \<and>
        navigatedTo (snd (showTimer now p)) = Some (resultsRoute (sessionToken (socket p)))"
    if a: "qTimeRemaining (quizState (socket p)) = None" "navigatedTo p = None" "\<not> isSubmitting p"
      and b: "\<not> loading p" "pageError p = []"
  proof -
    have s: "showTimer now p = (Some (mountTimer None True True), runPage [(now, TimeUp)] p)"
      using a(1) b mount_unset [of True] by (simp add: showTimer_def Let_def)
    have t: "runPage [(now, TimeUp)] p = handleFinishQuiz p"
      using a by (simp add: runPage_def pageStep_def handleTimeUp_def)
    show ?thesis using handleFinishQuiz_fields [OF a(3)] by (simp add: s t)
  qed
  then show ?thesis using mount_unset [of sync] by blast
qed

theorem unset_time_expires_at_once_witness:
  "qTimeRemaining (quizState (socket examplePage)) = None \<and> \<not> loading examplePage \<and>
   pageError examplePage = [] \<and> navigatedTo examplePage = None \<and>
   \<not> isSubmitting examplePage \<and>
   fst (showTimer 7 examplePage) = Some (mountTimer None True True) \<and>
   timeUpCalls (mountTimer None True True) = 1 \<and>
   finishQuizCalls (snd (showTimer 7 examplePage)) = 1 \<and>
   navigatedTo (snd (showTimer 7 examplePage)) = Some ''/results/s''"
proof -
  have a: "qTimeRemaining (quizState (socket examplePage)) = None" by code_simp
  have b: "navigatedTo examplePage = None" by code_simp
  have c: "\<not> isSubmitting examplePage" by code_simp
  have d: "finishQuizCalls examplePage = 0" by code_simp
  have e: "resultsRoute (sessionToken (socket examplePage)) = ''/results/s''" by code_simp
  have f: "\<not> loading examplePage" by code_simp
  have g: "pageError examplePage = []" by code_simp
  show ?thesis
    using unset_time_expires_at_once [of True examplePage 7] a b c d e f g by simp
qed

section \<open>Unmounting\<close>

text \<open>
  Claim C9, amended. After unmounting, whatever happened before, no interval of the timer
  or of the synchronizer is live, no document or window listener and no style element of
  the integrity monitor is left, the synchronizer's seven quiz handlers are off the
  socket and the socket has been disconnected. The four connection handlers that
  \<^verbatim>\<open>useSocket\<close> registered (\<^verbatim>\<open>connect\<close>, \<^verbatim>\<open>disconnect\<close>, \<^verbatim>\<open>connect_error\<close>, \<^verbatim>\<open>error\<close>)
  are not detached: they stay on the disconnected socket.
\<close>

theorem unmount_releases_resources:
  "intervals (unmountTimer (runTimer tevs (mountTimer init up sync))) = [] \<and>
   docListeners (unmountSecurity (runSecurity sevs (mountSecurity en))) = [] \<and>
   windowListeners (unmountSecurity (runSecurity sevs (mountSecurity en))) = [] \<and>
   headStyles (unmountSecurity (runSecurity sevs (mountSecurity en))) = [] \<and>
   hookIntervals (unmountHook (runHook hevs (mountHook tok sess))) = [] \<and>
   \<not> socketOpen (unmountHook (runHook hevs (mountHook tok sess))) \<and>
   socketHandlers (unmountHook (runHook hevs (mountHook tok sess))) =
     (if truthy tok then connectionHandlers 0 else [])"
proof -
  have h: "hookInv (runHook hevs (mountHook tok sess))"
    by (simp add: hookInv_runHook hookInv_mountHook)
  have t: "token (runHook hevs (mountHook tok sess)) = tok"
    by (simp add: token_runHook token_mountHook)
  show ?thesis
    using unmountHook_clears [OF h] t security_unmount_releases [of sevs en]
      timer_unmount_releases [of tevs init up sync]
    by simp
qed

text \<open>
  The claim as stated fails: a session that connected and joined, then unmounted, leaves
  four handlers on its socket.
\<close>

theorem unmount_listeners_counterexample:
  "socketHandlers (unmountHook (runHook [Transport Connect, Inbound (QuizJoined 125 0 2)]
      (mountHook (Some ''t'') (Some ''s'')))) =
     [(''connect'', 0), (''disconnect'', 0), (''connect_error'', 0), (''error'', 0)] \<and>
   socketHandlers (unmountHook (runHook [Transport Connect, Inbound (QuizJoined 125 0 2)]
      (mountHook (Some ''t'') (Some ''s'')))) \<noteq> []"
  by code_simp

end
